theory Spec2Isabelle
  imports Main "HOL-Library.Sublist"
begin

section \<open>Strings and lexical paths\<close>

text \<open>
  Go strings are byte sequences; they are modelled as \<open>string\<close> (a list of 8-bit
  characters).  The functions of this section are the standard-library helpers the
  runner calls (\<open>strings.HasPrefix\<close>, \<open>strings.HasSuffix\<close>, \<open>strings.Contains\<close>,
  \<open>strings.TrimPrefix\<close>, \<open>filepath.Clean\<close>, \<open>filepath.Join\<close>, \<open>filepath.Base\<close>,
  \<open>filepath.Dir\<close>), with their Unix behaviour (separator \<open>/\<close>, no volume names).
\<close>

fun HasPrefix :: "string \<Rightarrow> string \<Rightarrow> bool" where
  "HasPrefix s [] = True"
| "HasPrefix [] (p # ps) = False"
| "HasPrefix (c # cs) (p # ps) = (c = p \<and> HasPrefix cs ps)"

definition HasSuffix :: "string \<Rightarrow> string \<Rightarrow> bool" where
  "HasSuffix s suf = HasPrefix (rev s) (rev suf)"

fun Contains :: "string \<Rightarrow> string \<Rightarrow> bool" where
  "Contains [] sub = (sub = [])"
| "Contains (c # cs) sub = (HasPrefix (c # cs) sub \<or> Contains cs sub)"

definition TrimPrefix :: "string \<Rightarrow> string \<Rightarrow> string" where
  "TrimPrefix s p = (if HasPrefix s p then drop (length p) s else s)"

text \<open>Splitting at every separator, as \<open>strings.Split(p, "/")\<close> does, and its inverse.\<close>

fun split_sep :: "string \<Rightarrow> string list" where
  "split_sep [] = [[]]"
| "split_sep (c # cs) =
     (if c = CHR ''/'' then [] # split_sep cs
      else (case split_sep cs of [] \<Rightarrow> [[c]] | w # ws \<Rightarrow> (c # w) # ws))"

fun join_sep :: "string list \<Rightarrow> string" where
  "join_sep [] = []"
| "join_sep [w] = w"
| "join_sep (w # v # ws) = w @ ''/'' @ join_sep (v # ws)"

text \<open>
  \<open>filepath.Clean\<close>: empty and \<open>.\<close> elements are dropped, an inner \<open>..\<close> removes the
  element before it, a \<open>..\<close> at the start of a rooted path is dropped and one at the
  start of a relative path is kept; the empty result is \<open>.\<close>.  The stack holds the
  elements kept so far, innermost first.
\<close>

definition clean_push :: "bool \<Rightarrow> string list \<Rightarrow> string \<Rightarrow> string list" where
  "clean_push rooted st c =
     (if c = [] \<or> c = ''.'' then st
      else if c = ''..'' then
        (case st of
           [] \<Rightarrow> if rooted then [] else [c]
         | t # ts \<Rightarrow> if t = ''..'' then c # st else ts)
      else c # st)"

definition Clean :: "string \<Rightarrow> string" where
  "Clean p =
     (let rooted = HasPrefix p ''/'';
          st = foldl (clean_push rooted) [] (split_sep p);
          out = (if rooted then ''/'' else []) @ join_sep (rev st)
      in if out = [] then ''.'' else out)"

definition Join :: "string list \<Rightarrow> string" where
  "Join elems =
     (let ne = filter (\<lambda>e. e \<noteq> []) elems
      in if ne = [] then [] else Clean (join_sep ne))"

definition Base :: "string \<Rightarrow> string" where
  "Base p =
     (if p = [] then ''.''
      else let q = dropWhile (\<lambda>c. c = CHR ''/'') (rev p)
           in if q = [] then ''/'' else rev (takeWhile (\<lambda>c. c \<noteq> CHR ''/'') q))"

definition Dir :: "string \<Rightarrow> string" where
  "Dir p = Clean (rev (dropWhile (\<lambda>c. c \<noteq> CHR ''/'') (rev p)))"

text \<open>A path element that \<open>Clean\<close> keeps as it is.\<close>

definition normal_elem :: "string \<Rightarrow> bool" where
  "normal_elem c = (c \<noteq> [] \<and> c \<noteq> ''.'' \<and> c \<noteq> ''..'' \<and> CHR ''/'' \<notin> set c)"

section \<open>Configuration constants\<close>

definition DefaultImagesDir :: string where
  "DefaultImagesDir = ''/tmp/parcel/images''"

definition DefaultChartsDir :: string where
  "DefaultChartsDir = ''/tmp/parcel/charts''"

section \<open>The file system seen by the extractor\<close>

text \<open>
  The extractor creates directories and writes files.  The file system is a map from
  a path to the node stored there; the root and the working directory always exist.
  An operating-system call fails as the kernel would on that tree: a directory cannot
  be made below a regular file, a file cannot be created in a missing directory or
  over a directory.  The error of a failed call is Go's \<open>PathError\<close>: the operation,
  the path it failed on and the error number; a body that ends early gives
  \<open>io.ErrUnexpectedEOF\<close>.
\<close>

datatype node = File string | Directory

type_synonym filesys = "string \<rightharpoonup> node"

datatype errno = ENOENT | ENOTDIR | EISDIR

datatype oserror = PathError string string errno | ErrUnexpectedEOF

definition node_at :: "filesys \<Rightarrow> string \<Rightarrow> node option" where
  "node_at f p = (if p = ''/'' \<or> p = ''.'' then Some Directory else f p)"

text \<open>The directories \<open>os.MkdirAll\<close> visits for a path, outermost first, the path last.\<close>

definition ancestors :: "string \<Rightarrow> string list" where
  "ancestors p =
     (let cs = filter (\<lambda>c. c \<noteq> []) (split_sep p);
          root = (if HasPrefix p ''/'' then ''/'' else [])
      in map (\<lambda>k. root @ join_sep (take k cs)) [1..<Suc (length cs)])"

fun mkdir_chain :: "filesys \<Rightarrow> string list \<Rightarrow> oserror + filesys" where
  "mkdir_chain f [] = Inr f"
| "mkdir_chain f (d # ds) =
     (case node_at f d of
        Some Directory \<Rightarrow> mkdir_chain f ds
      | Some (File _) \<Rightarrow> Inl (PathError ''mkdir'' d ENOTDIR)
      | None \<Rightarrow> mkdir_chain (f(d \<mapsto> Directory)) ds)"

definition MkdirAll :: "filesys \<Rightarrow> string \<Rightarrow> oserror + filesys" where
  "MkdirAll f p = mkdir_chain f (ancestors p)"

text \<open>\<open>os.Create\<close>: create or truncate a regular file in an existing directory.\<close>

definition Create :: "filesys \<Rightarrow> string \<Rightarrow> oserror + filesys" where
  "Create f p =
     (case node_at f (Dir p) of
        None \<Rightarrow> Inl (PathError ''open'' p ENOENT)
      | Some (File _) \<Rightarrow> Inl (PathError ''open'' p ENOTDIR)
      | Some Directory \<Rightarrow>
          (case node_at f p of
             Some Directory \<Rightarrow> Inl (PathError ''open'' p EISDIR)
           | _ \<Rightarrow> Inr (f(p \<mapsto> File []))))"

text \<open>
  \<open>io.Copy(outFile, r)\<close>: the bytes read from the archive entry are written to the
  created file; when the entry's body cannot be read to its end, the bytes read so
  far stay in the file and the copy reports the error.
\<close>

definition Copy :: "filesys \<Rightarrow> string \<Rightarrow> string \<Rightarrow> bool \<Rightarrow> oserror option \<times> filesys" where
  "Copy f p body intact = (if intact then None else Some ErrUnexpectedEOF, f(p \<mapsto> File body))"

section \<open>Archive classifier and extractor\<close>

text \<open>
  A tar header carries the entry's name and type flag (\<open>tar.TypeDir\<close> is the byte
  \<open>5\<close>).  The stream the reader walks is a list of items: an entry (header, the bytes
  of its body, and whether the body can be read to its end) or a place where
  \<open>tr.Next()\<close> returns an error other than \<open>io.EOF\<close>; the end of the list is \<open>io.EOF\<close>.
\<close>

record header =
  Name :: string
  Typeflag :: char

definition TypeDir :: char where
  "TypeDir = CHR ''5''"

definition TypeReg :: char where
  "TypeReg = CHR ''0''"

datatype tar_item = Entry header string bool | Corrupt

datatype xerror = ImagesDirError oserror | ChartsDirError oserror | TarReadError

text \<open>Lines the extractor writes to the process log.\<close>

datatype xlog =
    ExtractedImage string string
  | WarnImage string oserror
  | WarnChart string oserror

text \<open>
  The extractor holds two destination roots and two optional callbacks.  A callback
  acts on the state of whoever registered it, so the extractor is polymorphic in
  that state.  The world of an extraction is the file system, the callbacks' state
  and the process log.
\<close>

record 's TarExtractor =
  imagesDir :: string
  chartsDir :: string
  onImage :: "(string \<Rightarrow> 's \<Rightarrow> 's) option"
  onChart :: "(string \<Rightarrow> 's \<Rightarrow> 's) option"

record 's xworld =
  fs :: filesys
  cbstate :: 's
  plog :: "xlog list"

definition NewTarExtractor :: "'s TarExtractor" where
  "NewTarExtractor =
     \<lparr>imagesDir = DefaultImagesDir, chartsDir = DefaultChartsDir,
      onImage = None, onChart = None\<rparr>"

definition OnImage :: "(string \<Rightarrow> 's \<Rightarrow> 's) \<Rightarrow> 's TarExtractor \<Rightarrow> 's TarExtractor" where
  "OnImage fn te = te\<lparr>onImage := Some fn\<rparr>"

definition OnChart :: "(string \<Rightarrow> 's \<Rightarrow> 's) \<Rightarrow> 's TarExtractor \<Rightarrow> 's TarExtractor" where
  "OnChart fn te = te\<lparr>onChart := Some fn\<rparr>"

definition isImageTar :: "string \<Rightarrow> bool" where
  "isImageTar name =
     ((HasSuffix name ''.tar'' \<or> HasSuffix name ''.tar.gz'' \<or> HasSuffix name ''.tgz'')
      \<and> \<not> Contains name ''/'')"

definition isChartFile :: "string \<Rightarrow> bool" where
  "isChartFile name = (HasPrefix name ''charts/'' \<or> Contains name ''Chart.yaml'')"

definition call :: "(string \<Rightarrow> 's \<Rightarrow> 's) option \<Rightarrow> string \<Rightarrow> 's xworld \<Rightarrow> 's xworld" where
  "call cb name w = (case cb of None \<Rightarrow> w | Some fn \<Rightarrow> w\<lparr>cbstate := fn name (cbstate w)\<rparr>)"

definition extractImage ::
  "'s TarExtractor \<Rightarrow> header \<Rightarrow> string \<Rightarrow> bool \<Rightarrow> 's xworld \<Rightarrow> oserror option \<times> 's xworld" where
  "extractImage te h body intact w =
     (let targetPath = Join [imagesDir te, Base (Name h)]
      in case Create (fs w) targetPath of
           Inl e \<Rightarrow> (Some e, w)
         | Inr f1 \<Rightarrow>
             (case Copy f1 targetPath body intact of
                (Some e, f2) \<Rightarrow> (Some e, w\<lparr>fs := f2\<rparr>)
              | (None, f2) \<Rightarrow>
                  (None, w\<lparr>fs := f2, plog := plog w @ [ExtractedImage (Name h) targetPath]\<rparr>)))"

definition extractChart ::
  "'s TarExtractor \<Rightarrow> header \<Rightarrow> string \<Rightarrow> bool \<Rightarrow> 's xworld \<Rightarrow> oserror option \<times> 's xworld" where
  "extractChart te h body intact w =
     (let relativePath = TrimPrefix (Name h) ''charts/'';
          targetPath = Join [chartsDir te, relativePath]
      in if Typeflag h = TypeDir then
           (case MkdirAll (fs w) targetPath of
              Inl e \<Rightarrow> (Some e, w)
            | Inr f1 \<Rightarrow> (None, w\<lparr>fs := f1\<rparr>))
         else
           (case MkdirAll (fs w) (Dir targetPath) of
              Inl e \<Rightarrow> (Some e, w)
            | Inr f1 \<Rightarrow>
                (case Create f1 targetPath of
                   Inl e \<Rightarrow> (Some e, w\<lparr>fs := f1\<rparr>)
                 | Inr f2 \<Rightarrow>
                     (case Copy f2 targetPath body intact of
                        (Some e, f3) \<Rightarrow> (Some e, w\<lparr>fs := f3\<rparr>)
                      | (None, f3) \<Rightarrow>
                          (None,
                           if Base (Name h) = ''Chart.yaml''
                           then call (onChart te) (Base (Dir targetPath)) (w\<lparr>fs := f3\<rparr>)
                           else w\<lparr>fs := f3\<rparr>)))))"

text \<open>The body of the loop of \<open>Extract\<close>, for one entry.\<close>

definition extract_entry ::
  "'s TarExtractor \<Rightarrow> header \<Rightarrow> string \<Rightarrow> bool \<Rightarrow> 's xworld \<Rightarrow> 's xworld" where
  "extract_entry te h body intact w =
     (if isImageTar (Name h) then
        (case extractImage te h body intact w of
           (Some e, w1) \<Rightarrow> w1\<lparr>plog := plog w1 @ [WarnImage (Name h) e]\<rparr>
         | (None, w1) \<Rightarrow> call (onImage te) (Name h) w1)
      else if isChartFile (Name h) then
        (case extractChart te h body intact w of
           (Some e, w1) \<Rightarrow> w1\<lparr>plog := plog w1 @ [WarnChart (Name h) e]\<rparr>
         | (None, w1) \<Rightarrow> w1)
      else w)"

fun extract_loop ::
  "'s TarExtractor \<Rightarrow> tar_item list \<Rightarrow> 's xworld \<Rightarrow> xerror option \<times> 's xworld" where
  "extract_loop te [] w = (None, w)"
| "extract_loop te (Corrupt # rest) w = (Some TarReadError, w)"
| "extract_loop te (Entry h body intact # rest) w =
     extract_loop te rest (extract_entry te h body intact w)"

definition Extract ::
  "'s TarExtractor \<Rightarrow> tar_item list \<Rightarrow> 's xworld \<Rightarrow> xerror option \<times> 's xworld" where
  "Extract te r w =
     (case MkdirAll (fs w) (imagesDir te) of
        Inl e \<Rightarrow> (Some (ImagesDirError e), w)
      | Inr f1 \<Rightarrow>
          (case MkdirAll f1 (chartsDir te) of
             Inl e \<Rightarrow> (Some (ChartsDirError e), w\<lparr>fs := f1\<rparr>)
           | Inr f2 \<Rightarrow> extract_loop te r (w\<lparr>fs := f2\<rparr>)))"

subsection \<open>Reading an extraction\<close>

text \<open>
  The entries \<open>Extract\<close> reaches (those before the first unreadable header), and the
  loop body applied to each of them in stream order.
\<close>

fun entries_of :: "tar_item list \<Rightarrow> (header \<times> string \<times> bool) list" where
  "entries_of [] = []"
| "entries_of (Corrupt # rest) = []"
| "entries_of (Entry h body intact # rest) = (h, body, intact) # entries_of rest"

definition process_all ::
  "'s TarExtractor \<Rightarrow> (header \<times> string \<times> bool) list \<Rightarrow> 's xworld \<Rightarrow> 's xworld" where
  "process_all te es w = foldl (\<lambda>w (h, body, intact). extract_entry te h body intact w) w es"

text \<open>
  Callbacks that record every call, in order: the extractor of \<open>te\<close> with both hooks
  replaced by recorders.
\<close>

datatype discovery = ImageFound string | ChartFound string

definition recording :: "'s TarExtractor \<Rightarrow> discovery list TarExtractor" where
  "recording te =
     \<lparr>imagesDir = imagesDir te, chartsDir = chartsDir te,
      onImage = Some (\<lambda>name s. s @ [ImageFound name]),
      onChart = Some (\<lambda>name s. s @ [ChartFound name])\<rparr>"

fun chart_found :: "discovery list \<Rightarrow> string list" where
  "chart_found [] = []"
| "chart_found (ChartFound n # ds) = n # chart_found ds"
| "chart_found (ImageFound n # ds) = chart_found ds"





fun is_warning :: "xlog \<Rightarrow> bool" where
  "is_warning (WarnImage n e) = True"
| "is_warning (WarnChart n e) = True"
| "is_warning (ExtractedImage n t) = False"

text \<open>
  The remainder of a name after \<open>charts/\<close>, resolved as \<open>filepath.Clean\<close> resolves a
  relative path: empty and \<open>.\<close> elements dropped, a \<open>..\<close> cancelling the element before
  it, a \<open>..\<close> with nothing before it kept.  A remainder leads out of the directory it
  starts in when a \<open>..\<close> is left.  \<open>below d ks\<close> is the path reached from \<open>d\<close> by going
  down through the elements \<open>ks\<close>.
\<close>

definition path_elems :: "string \<Rightarrow> string list" where
  "path_elems rest = rev (foldl (clean_push False) [] (split_sep rest))"

definition leads_out :: "string \<Rightarrow> bool" where
  "leads_out rest = (''..'' \<in> set (path_elems rest))"

fun below :: "string \<Rightarrow> string list \<Rightarrow> string" where
  "below d [] = d"
| "below d (k # ks) = below (d @ ''/'' @ k) ks"

subsection \<open>Sample streams\<close>

definition reg :: "string \<Rightarrow> header" where
  "reg n = \<lparr>Name = n, Typeflag = TypeReg\<rparr>"

definition dirent :: "string \<Rightarrow> header" where
  "dirent n = \<lparr>Name = n, Typeflag = TypeDir\<rparr>"

definition demo_extractor :: "discovery list TarExtractor" where
  "demo_extractor = recording (NewTarExtractor :: unit TarExtractor)"

definition world0 :: "discovery list xworld" where
  "world0 = \<lparr>fs = Map.empty, cbstate = [], plog = []\<rparr>"

definition world1 :: "discovery list xworld" where
  "world1 =
     \<lparr>fs = [''/tmp'' \<mapsto> Directory, ''/tmp/parcel'' \<mapsto> Directory,
            ''/tmp/parcel/images'' \<mapsto> Directory, ''/tmp/parcel/charts'' \<mapsto> Directory],
      cbstate = [], plog = []\<rparr>"

text \<open>The same tree with a directory where an image of the stream would go.\<close>

definition occupied_world :: "discovery list xworld" where
  "occupied_world = world1\<lparr>fs := (fs world1)(''/tmp/parcel/images/late.tgz'' \<mapsto> Directory)\<rparr>"

definition scenario_a :: "tar_item list" where
  "scenario_a =
     [Entry (reg ''nginx_1.25.tar'') ''layers'' True,
      Entry (reg ''charts/demo/Chart.yaml'') ''name: demo'' True,
      Entry (reg ''charts/demo/templates/svc.yaml'') ''kind: Service'' True]"


definition clashing_stream :: "tar_item list" where
  "clashing_stream =
     [Entry (reg ''charts/a'') ''plain file'' True,
      Entry (reg ''charts/a/b'') ''below a file'' True,
      Entry (reg ''late.tgz'') ''layers'' True]"

definition truncated_stream :: "tar_item list" where
  "truncated_stream = [Entry (reg ''nginx_1.25.tar'') ''layers'' True, Corrupt]"

section \<open>Lifecycle state machine\<close>

datatype State = StateIdle | StateTransferring | StateStarting | StateReady

fun State_String :: "State \<Rightarrow> string" where
  "State_String StateIdle = ''IDLE''"
| "State_String StateTransferring = ''TRANSFERRING''"
| "State_String StateStarting = ''STARTING''"
| "State_String StateReady = ''READY''"

text \<open>
  \<open>Transition\<close> stores the new state and, when a hook is registered, starts a
  goroutine that will call it with \<open>(from, to)\<close>.  The goroutines started and not yet
  run are kept in \<open>notify\<close>, in the order they were started; \<open>hooked\<close> says whether
  \<open>onTransition\<close> is set.
\<close>

record StateMachine =
  current :: State
  hooked :: bool
  notify :: "(State \<times> State) list"
  imagesCount :: int
  chartsCount :: int

definition NewStateMachine :: StateMachine where
  "NewStateMachine =
     \<lparr>current = StateIdle, hooked = False, notify = [], imagesCount = 0, chartsCount = 0\<rparr>"

definition Current :: "StateMachine \<Rightarrow> State" where
  "Current sm = current sm"

definition Transition :: "State \<Rightarrow> StateMachine \<Rightarrow> StateMachine" where
  "Transition to sm =
     (let from = current sm;
          sm1 = sm\<lparr>current := to\<rparr>
      in if hooked sm1 then sm1\<lparr>notify := notify sm1 @ [(from, to)]\<rparr> else sm1)"

definition OnTransition :: "StateMachine \<Rightarrow> StateMachine" where
  "OnTransition sm = sm\<lparr>hooked := True\<rparr>"

text \<open>
  The counters are Go \<open>int\<close>s, 64 bits wide and signed on the runner's platforms
  (linux/amd64 and linux/arm64): an increment past the largest value wraps to the
  smallest.
\<close>

definition int64 :: "int \<Rightarrow> int" where
  "int64 x = (x + 2 ^ 63) mod 2 ^ 64 - 2 ^ 63"

definition IncrementImages :: "StateMachine \<Rightarrow> StateMachine" where
  "IncrementImages sm = sm\<lparr>imagesCount := int64 (imagesCount sm + 1)\<rparr>"

definition IncrementCharts :: "StateMachine \<Rightarrow> StateMachine" where
  "IncrementCharts sm = sm\<lparr>chartsCount := int64 (chartsCount sm + 1)\<rparr>"

definition GetCounts :: "StateMachine \<Rightarrow> int \<times> int" where
  "GetCounts sm = (imagesCount sm, chartsCount sm)"

section \<open>Log bus\<close>

text \<open>
  A log message has a level, a source and a text (its timestamp, read from the clock
  when the message is built, is left out).  A subscriber's channel is a bounded
  queue: the non-blocking send of \<open>Add\<close> enqueues when there is room and drops the
  message otherwise.
\<close>

record LogMessage =
  Level :: string
  Source :: string
  Message :: string

record chan =
  capacity :: nat
  queue :: "LogMessage list"

record LogBuffer =
  messages :: "LogMessage list"
  maxSize :: int
  subscribers :: "chan list"

definition NewLogBuffer :: "int \<Rightarrow> LogBuffer" where
  "NewLogBuffer n = \<lparr>messages = [], maxSize = n, subscribers = []\<rparr>"

definition send :: "LogMessage \<Rightarrow> chan \<Rightarrow> chan" where
  "send msg ch = (if length (queue ch) < capacity ch then ch\<lparr>queue := queue ch @ [msg]\<rparr> else ch)"

definition Add :: "LogMessage \<Rightarrow> LogBuffer \<Rightarrow> LogBuffer" where
  "Add msg lb =
     (let ms = messages lb @ [msg];
          ms1 = (if int (length ms) > maxSize lb then tl ms else ms)
      in lb\<lparr>messages := ms1, subscribers := map (send msg) (subscribers lb)\<rparr>)"



text \<open>Splitting written bytes into lines, as \<open>bytes.Split(p, "\n")\<close> does.\<close>

fun split_lines :: "string \<Rightarrow> string list" where
  "split_lines [] = [[]]"
| "split_lines (c # cs) =
     (if c = CHR 0x0A then [] # split_lines cs
      else (case split_lines cs of [] \<Rightarrow> [[c]] | w # ws \<Rightarrow> (c # w) # ws))"

definition nonempty_lines :: "string \<Rightarrow> string list" where
  "nonempty_lines p = filter (\<lambda>line. line \<noteq> []) (split_lines p)"

text \<open>\<open>LogBuffer.Write\<close>: the buffer used as a writer (the cluster output in debug mode).\<close>

definition LogBuffer_Write :: "string \<Rightarrow> LogBuffer \<Rightarrow> LogBuffer" where
  "LogBuffer_Write p lb =
     foldl (\<lambda>b line. Add \<lparr>Level = ''info'', Source = ''k3s'', Message = line\<rparr> b) lb (nonempty_lines p)"

section \<open>The server\<close>

text \<open>
  A WebSocket connection is the list of frames written to it so far and whether
  writing to it fails (the peer is gone).  The server's connections are keyed by
  the connection's identity.
\<close>

record ws_conn =
  frames :: "LogMessage list"
  broken :: bool

definition WriteJSON :: "LogMessage \<Rightarrow> ws_conn \<Rightarrow> ws_conn option" where
  "WriteJSON msg c = (if broken c then None else Some (c\<lparr>frames := frames c @ [msg]\<rparr>))"

text \<open>
  The chart phases of the Helm manager are a map kept as an association list, a
  chart name occurring at most once.
\<close>

record ChartStatus =
  Phase :: string
  StatusMessage :: string

fun assign :: "string \<Rightarrow> ChartStatus \<Rightarrow> (string \<times> ChartStatus) list \<Rightarrow> (string \<times> ChartStatus) list" where
  "assign k v [] = [(k, v)]"
| "assign k v ((k', v') # rest) = (if k = k' then (k, v) # rest else (k', v') # assign k v rest)"

record HelmManager =
  helmChartsDir :: string
  chartStatus :: "(string \<times> ChartStatus) list"

definition NewHelmManager :: HelmManager where
  "NewHelmManager = \<lparr>helmChartsDir = DefaultChartsDir, chartStatus = []\<rparr>"

definition updateStatus :: "string \<Rightarrow> string \<Rightarrow> string \<Rightarrow> HelmManager \<Rightarrow> HelmManager" where
  "updateStatus chart phase message hm =
     hm\<lparr>chartStatus := assign chart \<lparr>Phase = phase, StatusMessage = message\<rparr> (chartStatus hm)\<rparr>"

definition GetChartsStatus :: "HelmManager \<Rightarrow> (string \<times> ChartStatus) list" where
  "GetChartsStatus hm = chartStatus hm"

record K3sManager =
  ready :: bool
  Airgap :: bool

definition NewK3sManager :: K3sManager where
  "NewK3sManager = \<lparr>ready = False, Airgap = True\<rparr>"

record Server =
  state :: StateMachine
  k3s :: K3sManager
  helm :: HelmManager
  logBuffer :: LogBuffer
  wsClients :: "nat \<rightharpoonup> ws_conn"
  debug :: bool

text \<open>
  \<open>NewServer\<close>, given the two environment switches it reads (\<open>KUBE_PARCEL_AIRGAP\<close>
  disabling the airgap, \<open>KUBE_PARCEL_DEBUG\<close>).  The transition hook it registers is
  \<open>transition_hook\<close> below; the extractor's hooks are those of \<open>server_extractor\<close>.
\<close>

definition NewServer :: "bool \<Rightarrow> bool \<Rightarrow> Server" where
  "NewServer online dbg =
     \<lparr>state = OnTransition NewStateMachine,
      k3s = (if online then NewK3sManager\<lparr>Airgap := False\<rparr> else NewK3sManager),
      helm = NewHelmManager,
      logBuffer = NewLogBuffer 1000,
      wsClients = Map.empty,
      debug = dbg\<rparr>"

definition broadcastLog :: "string \<Rightarrow> string \<Rightarrow> string \<Rightarrow> Server \<Rightarrow> Server" where
  "broadcastLog source level message s =
     (let logMsg = \<lparr>Level = level, Source = source, Message = message\<rparr>
      in s\<lparr>logBuffer := Add logMsg (logBuffer s),
            wsClients := (\<lambda>k. case wsClients s k of None \<Rightarrow> None | Some c \<Rightarrow> WriteJSON logMsg c)\<rparr>)"

definition arrow :: string where
  "arrow = [CHR 0xE2, CHR 0x86, CHR 0x92]"

definition transition_hook :: "State \<Rightarrow> State \<Rightarrow> Server \<Rightarrow> Server" where
  "transition_hook from to s =
     broadcastLog ''runner'' ''info''
       (''State transition: '' @ State_String from @ '' '' @ arrow @ '' '' @ State_String to) s"

text \<open>
  \<open>SourceLogWriter.Write\<close> with the broadcast function set, as the Helm manager's
  logger is: every non-empty line of the written bytes is broadcast at level
  \<open>info\<close>.
\<close>

definition SourceLogWriter_Write :: "string \<Rightarrow> string \<Rightarrow> Server \<Rightarrow> Server" where
  "SourceLogWriter_Write source p s =
     foldl (\<lambda>t line. broadcastLog source ''info'' line t) s (nonempty_lines p)"









text \<open>
  What a handler does to the server, one action for each statement with an effect,
  in program order; \<open>run_action\<close> performs one.  Two actions belong to no
  handler but run beside them: \<open>AHook from to\<close> is a goroutine started by
  \<open>Transition\<close> calling the transition hook, and \<open>ABufferWrite p\<close> is the cluster
  process writing \<open>p\<close> to the log buffer (its output in debug mode).
\<close>

datatype action =
    ATransition State
  | AIncrementImages
  | AIncrementCharts
  | ABroadcast string string string
  | AUpdateStatus string string string
  | ASetReady
  | AHook State State
  | ABufferWrite string

fun run_action :: "Server \<Rightarrow> action \<Rightarrow> Server" where
  "run_action s (ATransition to) = s\<lparr>state := Transition to (state s)\<rparr>"
| "run_action s AIncrementImages = s\<lparr>state := IncrementImages (state s)\<rparr>"
| "run_action s AIncrementCharts = s\<lparr>state := IncrementCharts (state s)\<rparr>"
| "run_action s (ABroadcast source level message) = broadcastLog source level message s"
| "run_action s (AUpdateStatus chart phase message) =
     s\<lparr>helm := updateStatus chart phase message (helm s)\<rparr>"
| "run_action s ASetReady = s\<lparr>k3s := (k3s s)\<lparr>ready := True\<rparr>\<rparr>"
| "run_action s (AHook from to) = transition_hook from to s"
| "run_action s (ABufferWrite p) = s\<lparr>logBuffer := LogBuffer_Write p (logBuffer s)\<rparr>"

definition run_actions :: "action list \<Rightarrow> Server \<Rightarrow> Server" where
  "run_actions acts s = foldl run_action s acts"

section \<open>Cluster process manager\<close>

text \<open>
  What the host answers while the cluster boots.  Host preparation (the cgroup
  hierarchy, the airgap rules) only logs its failures and the argument list has no
  influence on the result, so \<open>Start\<close> is determined by: whether the process starts;
  for each firing of the 500 ms ticker served before the 60 s timer wins the
  \<open>select\<close>, whether the kubeconfig file exists; and for each firing of the 2 s ticker
  served before the 300 s timer wins, what the two health endpoints answer (an HTTP
  status, or nothing when the request fails).  Both timers fire, so each list is
  finite; when it is used up the timer's branch is taken.
\<close>

record k3s_env =
  start_error :: "string option"
  kubeconfig_ticks :: "bool list"
  ready_ticks :: "(nat option \<times> nat option) list"

datatype k3s_error = StartFailed string | KubeconfigTimeout | ReadyTimeout

definition DefaultKubeconfigPath :: string where
  "DefaultKubeconfigPath = ''/tmp/kubeconfig.yaml''"

fun k3s_error_text :: "k3s_error \<Rightarrow> string" where
  "k3s_error_text (StartFailed e) = ''failed to start k3s: '' @ e"
| "k3s_error_text KubeconfigTimeout = ''timeout waiting for kubeconfig at '' @ DefaultKubeconfigPath"
| "k3s_error_text ReadyTimeout = ''timeout waiting for k3s API (5 minute limit reached)''"

fun waitForKubeconfig :: "bool list \<Rightarrow> k3s_error option" where
  "waitForKubeconfig [] = Some KubeconfigTimeout"
| "waitForKubeconfig (exists # ticks) = (if exists then None else waitForKubeconfig ticks)"

definition StatusOK :: nat where
  "StatusOK = 200"

definition StatusUnauthorized :: nat where
  "StatusUnauthorized = 401"

text \<open>One request of the readiness loop: ready on 200 or 401, otherwise the next URL.\<close>

definition answers_ready :: "nat option \<Rightarrow> bool" where
  "answers_ready resp =
     (case resp of None \<Rightarrow> False | Some code \<Rightarrow> code = StatusOK \<or> code = StatusUnauthorized)"

fun poll_urls :: "nat option list \<Rightarrow> bool" where
  "poll_urls [] = False"
| "poll_urls (resp # rest) = (if answers_ready resp then True else poll_urls rest)"

fun waitForReady :: "(nat option \<times> nat option) list \<Rightarrow> k3s_error option" where
  "waitForReady [] = Some ReadyTimeout"
| "waitForReady ((healthz, readyz) # ticks) =
     (if poll_urls [healthz, readyz] then None else waitForReady ticks)"

definition Start :: "k3s_env \<Rightarrow> K3sManager \<Rightarrow> k3s_error option \<times> K3sManager" where
  "Start env km =
     (case start_error env of
        Some e \<Rightarrow> (Some (StartFailed e), km)
      | None \<Rightarrow>
          (case waitForKubeconfig (kubeconfig_ticks env) of
             Some e \<Rightarrow> (Some e, km)
           | None \<Rightarrow>
               (case waitForReady (ready_ticks env) of
                  Some e \<Rightarrow> (Some e, km)
                | None \<Rightarrow> (None, km\<lparr>ready := True\<rparr>))))"

definition IsReady :: "K3sManager \<Rightarrow> bool" where
  "IsReady km = ready km"

section \<open>Deployment and test orchestrator\<close>

text \<open>
  The Helm manager runs external commands and looks at the host's files.  The
  environment gives their outcomes: which of the well-known Helm paths exist,
  whether \<open>helm\<close> is on the \<open>PATH\<close>, the error (if any) of each step of the download,
  what \<open>os.ReadDir\<close> returns for the charts directory, which \<open>Chart.yaml\<close> files
  exist, whether the default service account shows up at a tick of the bounded
  wait, and for each chart path the outcome of \<open>helm install\<close> and of \<open>helm test\<close>
  for it: the chunks the command (and, for the test, the concurrent log tail) writes
  to the logger, and the error of \<open>cmd.Run\<close> if it fails.  The chart paths of one
  discovery are distinct, so an outcome per path loses no generality.  Every
  external call is taken to return; the two commands carry their own 15 minute
  timeout.
\<close>

record cmd_result =
  cmd_output :: "string list"
  cmd_error :: "string option"

record helm_env =
  stat_helm :: "string \<Rightarrow> bool"
  look_path_helm :: bool
  mkdir_temp_error :: "string option"
  download_error :: "string option"
  untar_error :: "string option"
  untar_output :: string
  read_helm_error :: "string option"
  write_bin_ok :: bool
  write_usr_local_error :: "string option"
  charts_dir_missing :: bool
  read_dir :: "string + (string \<times> bool) list"
  stat_chart_yaml :: "string \<Rightarrow> bool"
  service_account_ticks :: "bool list"
  helm_install :: "string \<Rightarrow> cmd_result"
  helm_test :: "string \<Rightarrow> cmd_result"
  ToLower :: "string \<Rightarrow> string"

text \<open>
  What the manager does, in program order: a status update, bytes written to its
  logger, a command run, a line on the process log.
\<close>

datatype helm_event =
    UpdateStatus string string string
  | LoggerWrite string
  | Exec "string list"
  | LogPrintf string

datatype helm_error =
    EnsureHelmFailed string
  | ReadDirFailed string
  | HelmInstallFailed string
  | HelmTestFailed string
  | TestsFailed "string list"

text \<open>
  The line end, and the two marks that open some lines written to the logger, byte
  for byte as the string literals of the source hold them.
\<close>

definition newline :: string where
  "newline = [CHR 0x0A]"

definition cross_mark :: string where
  "cross_mark = [CHR 0xC3, CHR 0xA2, CHR 0xC5, CHR 0x92]"

definition check_mark :: string where
  "check_mark = [CHR 0xC3, CHR 0xA2, CHR 0xC5, CHR 0x93, CHR 0xE2, CHR 0x80, CHR 0xA6]"

definition ensureHelmBinary :: "helm_env \<Rightarrow> string option \<times> helm_event list" where
  "ensureHelmBinary env =
     (if list_ex (stat_helm env) [''/bin/helm'', ''/usr/local/bin/helm'', ''/usr/bin/helm'']
      then (None, [])
      else if look_path_helm env then (None, [])
      else
        (let evs = [LoggerWrite (''Helm not found, downloading...'' @ newline)]
         in case mkdir_temp_error env of
              Some e \<Rightarrow> (Some (''failed to create temp dir: '' @ e), evs)
            | None \<Rightarrow>
           (case download_error env of
              Some e \<Rightarrow> (Some (''failed to download helm: '' @ e), evs)
            | None \<Rightarrow>
           (case untar_error env of
              Some e \<Rightarrow>
                (Some (''failed to extract helm: '' @ e @ '' (output: '' @ untar_output env @ '')''), evs)
            | None \<Rightarrow>
           (case read_helm_error env of
              Some e \<Rightarrow> (Some (''failed to read extracted helm: '' @ e), evs)
            | None \<Rightarrow>
           (if write_bin_ok env then (None, evs)
            else case write_usr_local_error env of
                   Some e \<Rightarrow>
                     (Some (''failed to install helm binary to /bin or /usr/local/bin: '' @ e), evs)
                 | None \<Rightarrow> (None, evs)))))))"

definition discoverCharts :: "helm_env \<Rightarrow> HelmManager \<Rightarrow> string + string list" where
  "discoverCharts env hm =
     (if charts_dir_missing env then Inr []
      else case read_dir env of
             Inl e \<Rightarrow> Inl e
           | Inr entries \<Rightarrow>
               Inr (map (\<lambda>(name, isDir). Join [helmChartsDir hm, name])
                     (filter (\<lambda>(name, isDir). isDir \<and>
                        stat_chart_yaml env (Join [Join [helmChartsDir hm, name], ''Chart.yaml'']))
                        entries)))"

fun waitForDefaultServiceAccount :: "bool list \<Rightarrow> string option" where
  "waitForDefaultServiceAccount [] = Some ''timeout waiting for default serviceaccount''"
| "waitForDefaultServiceAccount (found # ticks) =
     (if found then None else waitForDefaultServiceAccount ticks)"

text \<open>Decimal digits of a count and the \<open>%v\<close> rendering of a list of strings.\<close>

fun digit :: "nat \<Rightarrow> char" where
  "digit n = char_of (48 + n)"

function decimal :: "nat \<Rightarrow> string" where
  "decimal n = (if n < 10 then [digit n] else decimal (n div 10) @ [digit (n mod 10)])"
  by pat_completeness auto
termination
  by (relation "measure id") auto

fun join_space :: "string list \<Rightarrow> string" where
  "join_space [] = []"
| "join_space [w] = w"
| "join_space (w # v # ws) = w @ '' '' @ join_space (v # ws)"

fun helm_error_text :: "helm_error \<Rightarrow> string" where
  "helm_error_text (EnsureHelmFailed e) = ''failed to ensure helm binary: '' @ e"
| "helm_error_text (ReadDirFailed e) = e"
| "helm_error_text (HelmInstallFailed e) = ''helm install failed: '' @ e"
| "helm_error_text (HelmTestFailed e) = ''helm test failed: '' @ e"
| "helm_error_text (TestsFailed charts) =
     ''tests failed for '' @ decimal (length charts) @ '' chart(s): ['' @ join_space charts @ '']''"

definition installChart :: "helm_env \<Rightarrow> string \<Rightarrow> helm_error option \<times> helm_event list" where
  "installChart env chartPath =
     (let chartName = Base chartPath;
          releaseName = ToLower env chartName;
          result = helm_install env chartPath;
          evs = [LoggerWrite (''Installing chart: '' @ chartName @ newline),
                 UpdateStatus chartName ''Installing'' ''Helm install started'',
                 Exec [''helm'', ''install'', releaseName, chartPath, ''--wait'', ''--timeout=15m'']]
                @ map LoggerWrite (cmd_output result)
      in case cmd_error result of
           Some err \<Rightarrow>
             (let errMsg = ''Install failed: '' @ err
              in (Some (HelmInstallFailed err),
                  evs @ [LoggerWrite (cross_mark @ '' Install failed: '' @ errMsg @ newline),
                         UpdateStatus chartName ''Failed'' errMsg]))
         | None \<Rightarrow>
             (None,
              evs @ [LoggerWrite (check_mark @ '' Chart '' @ chartName @ '' installed successfully'' @ newline),
                     UpdateStatus chartName ''Deployed'' ''Helm install succeeded'']))"

definition runTests :: "helm_env \<Rightarrow> string \<Rightarrow> helm_error option \<times> helm_event list" where
  "runTests env chartPath =
     (let chartName = Base chartPath;
          releaseName = ToLower env chartName;
          result = helm_test env chartPath;
          evs = [LoggerWrite (''Running tests for: '' @ releaseName @ newline),
                 UpdateStatus chartName ''Testing'' ''Running integration tests'',
                 Exec [''helm'', ''test'', releaseName, ''--logs'', ''--timeout=15m'']]
                @ map LoggerWrite (cmd_output result)
      in case cmd_error result of
           Some err \<Rightarrow>
             (let errMsg = ''Tests failed: '' @ err
              in (Some (HelmTestFailed err),
                  evs @ [LoggerWrite (cross_mark @ '' Tests failed: '' @ errMsg @ newline),
                         UpdateStatus chartName ''Failed'' errMsg]))
         | None \<Rightarrow>
             (None,
              evs @ [LoggerWrite (check_mark @ '' Tests passed for '' @ releaseName @ newline),
                     UpdateStatus chartName ''Succeeded'' ''All tests passed'']))"

text \<open>
  The loop of \<open>InstallCharts\<close> over the discovered charts, with the failures and the
  events gathered so far.
\<close>

fun install_loop ::
  "helm_env \<Rightarrow> string list \<Rightarrow> string list \<times> helm_event list \<Rightarrow> string list \<times> helm_event list" where
  "install_loop env [] (testFailures, evs) = (testFailures, evs)"
| "install_loop env (chart # rest) (testFailures, evs) =
     (case installChart env chart of
        (Some err, ev1) \<Rightarrow>
          install_loop env rest
            (testFailures @ [chart],
             evs @ ev1 @ [LogPrintf (''Warning: failed to install chart '' @ chart @ '': ''
                            @ helm_error_text err)])
      | (None, ev1) \<Rightarrow>
          (case runTests env chart of
             (Some err, ev2) \<Rightarrow>
               install_loop env rest
                 (testFailures @ [chart],
                  evs @ ev1 @ ev2 @ [LogPrintf (''Warning: failed to run tests for chart '' @ chart
                                   @ '': '' @ helm_error_text err)])
           | (None, ev2) \<Rightarrow> install_loop env rest (testFailures, evs @ ev1 @ ev2)))"

definition InstallCharts :: "helm_env \<Rightarrow> HelmManager \<Rightarrow> helm_error option \<times> helm_event list" where
  "InstallCharts env hm =
     (case ensureHelmBinary env of
        (Some e, evs) \<Rightarrow> (Some (EnsureHelmFailed e), evs)
      | (None, evs) \<Rightarrow>
          (case discoverCharts env hm of
             Inl e \<Rightarrow> (Some (ReadDirFailed e), evs)
           | Inr charts \<Rightarrow>
               if charts = [] then (None, evs @ [LogPrintf ''No charts found to install''])
               else
                 (let evs1 =
                        (case waitForDefaultServiceAccount (service_account_ticks env) of
                           Some e \<Rightarrow>
                             [LogPrintf (''Warning: could not wait for default serviceaccount: '' @ e)]
                         | None \<Rightarrow> []);
                      (testFailures, evs2) = install_loop env charts ([], evs @ evs1)
                  in if testFailures \<noteq> [] then (Some (TestsFailed testFailures), evs2)
                     else (None, evs2))))"

text \<open>The manager after the status updates among some events.\<close>

fun apply_event :: "HelmManager \<Rightarrow> helm_event \<Rightarrow> HelmManager" where
  "apply_event hm (UpdateStatus chart phase message) = updateStatus chart phase message hm"
| "apply_event hm (LoggerWrite p) = hm"
| "apply_event hm (Exec argv) = hm"
| "apply_event hm (LogPrintf line) = hm"

definition apply_events :: "helm_event list \<Rightarrow> HelmManager \<Rightarrow> HelmManager" where
  "apply_events evs hm = foldl apply_event hm evs"

section \<open>Boundary handler\<close>

text \<open>
  The text of an error, as \<open>Error()\<close> gives it.  An error of \<open>Extract\<close> wraps its
  cause: the path error of the failed \<open>MkdirAll\<close>, or the error of the tar reader,
  whose text comes with the request (field \<open>ReadError\<close> below).
\<close>

fun errno_text :: "errno \<Rightarrow> string" where
  "errno_text ENOENT = ''no such file or directory''"
| "errno_text ENOTDIR = ''not a directory''"
| "errno_text EISDIR = ''is a directory''"

fun oserror_text :: "oserror \<Rightarrow> string" where
  "oserror_text (PathError op path e) = op @ '' '' @ path @ '': '' @ errno_text e"
| "oserror_text ErrUnexpectedEOF = ''unexpected EOF''"

fun xerror_text :: "string \<Rightarrow> xerror \<Rightarrow> string" where
  "xerror_text cause (ImagesDirError e) = ''failed to create images dir: '' @ oserror_text e"
| "xerror_text cause (ChartsDirError e) = ''failed to create charts dir: '' @ oserror_text e"
| "xerror_text cause TarReadError = ''tar read error: '' @ cause"

text \<open>
  The extractor as \<open>NewServer\<close> sets it up: the image hook increments the image
  counter and broadcasts a line, the chart hook does the same for charts.  The hooks
  act on the server; here they append their actions to the handler's.
\<close>

definition server_extractor :: "action list TarExtractor" where
  "server_extractor =
     OnChart (\<lambda>name acts. acts @ [AIncrementCharts,
                ABroadcast ''runner'' ''info'' (''Extracted chart: '' @ name)])
       (OnImage (\<lambda>name acts. acts @ [AIncrementImages,
                ABroadcast ''runner'' ''info'' (''Extracted image: '' @ name)])
          NewTarExtractor)"

text \<open>
  A request: its method, the tar stream of its body, and the text of the error the
  tar reader reports where the stream has a header it cannot read.
\<close>

record request =
  Method :: string
  Body :: "tar_item list"
  ReadError :: string

record response =
  StatusCode :: nat
  Text :: string

definition StatusAccepted :: nat where
  "StatusAccepted = 202"

definition StatusMethodNotAllowed :: nat where
  "StatusMethodNotAllowed = 405"

definition StatusConflict :: nat where
  "StatusConflict = 409"

definition StatusInternalServerError :: nat where
  "StatusInternalServerError = 500"

text \<open>
  The outcome of one call of \<open>HandleUpload\<close>: the response, the actions performed on
  the server, the file system afterwards, the calls of \<open>Extract\<close> made (each with the
  stream it was given), and whether the background task \<open>startK3s\<close> was started.
  The \<open>state\<close> field of the accepted response is read while that task may already
  run; it is not part of the model.
\<close>

record upload_outcome =
  resp :: response
  acts :: "action list"
  disk :: filesys
  extract_calls :: "tar_item list list"
  started :: bool

definition HandleUpload :: "request \<Rightarrow> Server \<Rightarrow> filesys \<Rightarrow> upload_outcome" where
  "HandleUpload r s d =
     (if Method r \<noteq> ''POST'' then
        \<lparr>resp = \<lparr>StatusCode = StatusMethodNotAllowed, Text = ''Method not allowed''\<rparr>,
         acts = [], disk = d, extract_calls = [], started = False\<rparr>
      else if Current (state s) \<noteq> StateIdle then
        \<lparr>resp = \<lparr>StatusCode = StatusConflict, Text = ''Server not in IDLE state''\<rparr>,
         acts = [], disk = d, extract_calls = [], started = False\<rparr>
      else
        (case Extract server_extractor (Body r)
                \<lparr>fs = d, cbstate = [ATransition StateTransferring], plog = []\<rparr> of
           (Some err, w) \<Rightarrow>
             \<lparr>resp = \<lparr>StatusCode = StatusInternalServerError, Text = xerror_text (ReadError r) err\<rparr>,
              acts = cbstate w @
                [ABroadcast ''runner'' ''error'' (''Extraction failed: '' @ xerror_text (ReadError r) err),
                 ATransition StateIdle],
              disk = fs w, extract_calls = [Body r], started = False\<rparr>
         | (None, w) \<Rightarrow>
             \<lparr>resp = \<lparr>StatusCode = StatusAccepted, Text = ''accepted''\<rparr>,
              acts = cbstate w @ [ABroadcast ''runner'' ''info'' ''Parcel extraction complete''],
              disk = fs w, extract_calls = [Body r], started = True\<rparr>))"

section \<open>The background task\<close>

text \<open>
  The Helm manager's logger is a \<open>SourceLogWriter\<close> of source \<open>helm\<close> with the
  broadcast function set: each non-empty line written becomes a broadcast at level
  \<open>info\<close>.  Status updates act on the manager; commands and process-log lines leave
  the server alone.
\<close>

fun helm_actions :: "helm_event \<Rightarrow> action list" where
  "helm_actions (UpdateStatus chart phase message) = [AUpdateStatus chart phase message]"
| "helm_actions (LoggerWrite p) = map (ABroadcast ''helm'' ''info'') (nonempty_lines p)"
| "helm_actions (Exec argv) = []"
| "helm_actions (LogPrintf line) = []"

text \<open>
  The environment of the background task: the cluster's boot, the error (if any)
  that walking the images directory returns from \<open>ImportImages\<close> (a failed import
  of one image is only logged there), and the Helm manager's environment.
\<close>

record run_env =
  cluster :: k3s_env
  import_error :: "string option"
  charts_env :: helm_env

definition startK3s :: "run_env \<Rightarrow> Server \<Rightarrow> action list" where
  "startK3s env s =
     [ATransition StateStarting] @
     (case Start (cluster env) (k3s s) of
        (Some err, km) \<Rightarrow>
          [ABroadcast ''k3s'' ''error'' (''Startup failed: '' @ k3s_error_text err),
           ABroadcast ''runner'' ''complete'' ''COMPLETE:FAILED:K3s startup failed'',
           ATransition StateIdle]
      | (None, km) \<Rightarrow>
          [ASetReady,
           ATransition StateReady,
           ABroadcast ''k3s'' ''info'' ''K3s is ready'',
           ABroadcast ''runner'' ''info'' ''Importing bundled images...''] @
          (case import_error env of
             Some e \<Rightarrow> [ABroadcast ''runner'' ''warning'' (''Image import warning: '' @ e)]
           | None \<Rightarrow> []) @
          (case InstallCharts (charts_env env) (helm s) of
             (err, evs) \<Rightarrow>
               concat (map helm_actions evs) @
               (let allPassed = (err = None);
                    allPassed1 =
                      (if err \<noteq> None \<and>
                          list_ex (\<lambda>(chart, status). Phase status = ''Failed'')
                            (GetChartsStatus (apply_events evs (helm s)))
                       then False else allPassed)
                in (case err of
                      Some e \<Rightarrow>
                        [ABroadcast ''helm'' ''warning'' (''Installation warnings: '' @ helm_error_text e)]
                    | None \<Rightarrow> []) @
                   (if allPassed1
                    then [ABroadcast ''runner'' ''complete'' ''COMPLETE:SUCCESS:All tests passed'']
                    else [ABroadcast ''runner'' ''complete'' ''COMPLETE:FAILED:Tests failed'']))))"

text \<open>
  Reading a list of actions: the messages put on the log bus (by a broadcast, by the
  transition hook, by a write to the buffer), the states entered, and the messages
  of level \<open>complete\<close>.
\<close>

fun emitted_by :: "action \<Rightarrow> LogMessage list" where
  "emitted_by (ABroadcast source level message) =
     [\<lparr>Level = level, Source = source, Message = message\<rparr>]"
| "emitted_by (AHook from to) =
     [\<lparr>Level = ''info'', Source = ''runner'',
       Message = ''State transition: '' @ State_String from @ '' '' @ arrow @ '' '' @ State_String to\<rparr>]"
| "emitted_by (ABufferWrite p) =
     map (\<lambda>line. \<lparr>Level = ''info'', Source = ''k3s'', Message = line\<rparr>) (nonempty_lines p)"
| "emitted_by a = []"

definition emitted :: "action list \<Rightarrow> LogMessage list" where
  "emitted as = concat (map emitted_by as)"

fun transitions :: "action list \<Rightarrow> State list" where
  "transitions [] = []"
| "transitions (ATransition to # rest) = to # transitions rest"
| "transitions (a # rest) = transitions rest"

definition completions :: "action list \<Rightarrow> LogMessage list" where
  "completions as = filter (\<lambda>m. Level m = ''complete'') (emitted as)"

fun background :: "action \<Rightarrow> bool" where
  "background (AHook from to) = True"
| "background (ABufferWrite p) = True"
| "background a = False"

text \<open>
  The client's reading of a message (\<open>checkCompletion\<close>): a message starting with
  \<open>COMPLETE:\<close> ends the run, as a failure when it contains \<open>COMPLETE:FAILED\<close>, as a
  success when it contains \<open>COMPLETE:SUCCESS\<close>.
\<close>

datatype verdict = Passed | NotPassed

definition checkCompletion :: "string \<Rightarrow> verdict option" where
  "checkCompletion message =
     (if \<not> HasPrefix message ''COMPLETE:'' then None
      else if Contains message ''COMPLETE:FAILED'' then Some NotPassed
      else if Contains message ''COMPLETE:SUCCESS'' then Some Passed
      else None)"

section \<open>Notions used to state the properties\<close>

text \<open>
  Cluster boot fails, in the words of the specification: the process fails to
  start, or the kubeconfig file is seen at no tick of its wait, or at no tick of the
  readiness wait either health endpoint answers 200 or 401.
\<close>

definition boot_fails :: "k3s_env \<Rightarrow> bool" where
  "boot_fails env =
     (start_error env \<noteq> None
      \<or> (\<forall>exists \<in> set (kubeconfig_ticks env). \<not> exists)
      \<or> (\<forall>(healthz, readyz) \<in> set (ready_ticks env).
            \<not> answers_ready healthz \<and> \<not> answers_ready readyz))"

text \<open>A chart fails when its install or its test fails.\<close>

definition chart_fails :: "helm_env \<Rightarrow> string \<Rightarrow> bool" where
  "chart_fails env chart =
     (cmd_error (helm_install env chart) \<noteq> None \<or> cmd_error (helm_test env chart) \<noteq> None)"

text \<open>
  The events of one chart's turn in the loop of \<open>InstallCharts\<close>: its install, then
  either the warning or its test, then the warning if the test failed.
\<close>

definition chart_events :: "helm_env \<Rightarrow> string \<Rightarrow> helm_event list" where
  "chart_events env chart =
     (case installChart env chart of
        (Some err, ev1) \<Rightarrow>
          ev1 @ [LogPrintf (''Warning: failed to install chart '' @ chart @ '': '' @ helm_error_text err)]
      | (None, ev1) \<Rightarrow>
          (case runTests env chart of
             (Some err, ev2) \<Rightarrow>
               ev1 @ ev2 @ [LogPrintf (''Warning: failed to run tests for chart '' @ chart @ '': ''
                              @ helm_error_text err)]
           | (None, ev2) \<Rightarrow> ev1 @ ev2))"

text \<open>The chart paths given to \<open>helm install\<close> and the releases given to \<open>helm test\<close>.\<close>

fun installs_run :: "helm_event list \<Rightarrow> string list" where
  "installs_run [] = []"
| "installs_run (Exec [h, verb, release, chartPath, w, t] # evs) =
     (if verb = ''install'' then chartPath # installs_run evs else installs_run evs)"
| "installs_run (ev # evs) = installs_run evs"

fun tests_run :: "helm_event list \<Rightarrow> string list" where
  "tests_run [] = []"
| "tests_run (Exec [h, verb, release, l, t] # evs) =
     (if verb = ''test'' then release # tests_run evs else tests_run evs)"
| "tests_run (ev # evs) = tests_run evs"

text \<open>The phases recorded for one chart name, in the order of the updates.\<close>

fun phases_of :: "string \<Rightarrow> helm_event list \<Rightarrow> string list" where
  "phases_of c [] = []"
| "phases_of c (UpdateStatus chart phase message # evs) =
     (if chart = c then phase # phases_of c evs else phases_of c evs)"
| "phases_of c (ev # evs) = phases_of c evs"

text \<open>The forward steps of the phase order, and a rank that every step raises.\<close>

definition phase_step :: "string \<Rightarrow> string \<Rightarrow> bool" where
  "phase_step p q =
     ((p = ''Pending'' \<and> q = ''Installing'')
      \<or> (p = ''Installing'' \<and> (q = ''Deployed'' \<or> q = ''Failed''))
      \<or> (p = ''Deployed'' \<and> q = ''Testing'')
      \<or> (p = ''Testing'' \<and> (q = ''Succeeded'' \<or> q = ''Failed'')))"

definition phase_rank :: "string \<Rightarrow> nat" where
  "phase_rank p =
     (if p = ''Pending'' then 0 else if p = ''Installing'' then 1
      else if p = ''Deployed'' then 2 else if p = ''Testing'' then 3 else 4)"

text \<open>
  What \<open>os.ReadDir\<close> can return: the names of one directory are distinct and each
  is a single ordinary path element.
\<close>

definition dir_listing :: "(string \<times> bool) list \<Rightarrow> bool" where
  "dir_listing entries = (distinct (map fst entries) \<and> list_all (\<lambda>(name, isDir). normal_elem name) entries)"

text \<open>Adding a sequence of messages to the bus, oldest first.\<close>

definition add_all :: "LogMessage list \<Rightarrow> LogBuffer \<Rightarrow> LogBuffer" where
  "add_all ms lb = foldl (\<lambda>b m. Add m b) lb ms"



subsection \<open>Sample runs\<close>

definition msg :: "string \<Rightarrow> LogMessage" where
  "msg text = \<lparr>Level = ''info'', Source = ''runner'', Message = text\<rparr>"

definition busy_server :: Server where
  "busy_server = (NewServer False False)\<lparr>state := Transition StateStarting (state (NewServer False False))\<rparr>"

definition upload_a :: request where
  "upload_a = \<lparr>Method = ''POST'', Body = scenario_a, ReadError = ''unexpected EOF''\<rparr>"

definition ok_result :: cmd_result where
  "ok_result = \<lparr>cmd_output = [], cmd_error = None\<rparr>"

definition failed_result :: cmd_result where
  "failed_result = \<lparr>cmd_output = [''Error: INSTALLATION FAILED'' @ newline], cmd_error = Some ''exit status 1''\<rparr>"

text \<open>Helm is installed; two charts \<open>alpha\<close> and \<open>beta\<close> are found; the install of \<open>alpha\<close> fails.\<close>

definition two_charts :: helm_env where
  "two_charts =
     \<lparr>stat_helm = (\<lambda>p. p = ''/usr/local/bin/helm''), look_path_helm = False,
      mkdir_temp_error = None, download_error = None, untar_error = None, untar_output = [],
      read_helm_error = None, write_bin_ok = True, write_usr_local_error = None,
      charts_dir_missing = False,
      read_dir = Inr [(''alpha'', True), (''beta'', True)],
      stat_chart_yaml = (\<lambda>p. True),
      service_account_ticks = [False, True],
      helm_install = (\<lambda>p. if p = ''/tmp/parcel/charts/alpha'' then failed_result else ok_result),
      helm_test = (\<lambda>p. ok_result),
      ToLower = (\<lambda>n. n)\<rparr>"

text \<open>No Helm binary anywhere and the download fails (no network).\<close>

definition no_helm :: helm_env where
  "no_helm = two_charts\<lparr>stat_helm := (\<lambda>p. False), download_error := Some ''dial tcp: no route to host''\<rparr>"

definition good_boot :: k3s_env where
  "good_boot = \<lparr>start_error = None, kubeconfig_ticks = [False, True],
      ready_ticks = [(None, None), (Some 503, Some 401)]\<rparr>"

definition never_ready :: k3s_env where
  "never_ready = \<lparr>start_error = None, kubeconfig_ticks = [False, True],
      ready_ticks = [(None, None), (Some 503, None), (None, Some 500)]\<rparr>"

definition run_two_charts :: run_env where
  "run_two_charts = \<lparr>cluster = good_boot, import_error = None, charts_env = two_charts\<rparr>"

definition run_no_helm :: run_env where
  "run_no_helm = \<lparr>cluster = good_boot, import_error = None, charts_env = no_helm\<rparr>"

definition run_never_ready :: run_env where
  "run_never_ready = \<lparr>cluster = never_ready, import_error = None, charts_env = two_charts\<rparr>"

definition transferring_server :: Server where
  "transferring_server =
     (NewServer False False)\<lparr>state := Transition StateTransferring (state (NewServer False False))\<rparr>"

text \<open>The phases the manager ever records.\<close>

definition recorded_phases :: "string set" where
  "recorded_phases = {''Installing'', ''Deployed'', ''Testing'', ''Succeeded'', ''Failed''}"

text \<open>
  The message that ends a run: the boot failed, or the charts were all installed
  and tested without an error, or not.
\<close>

definition final_message :: "run_env \<Rightarrow> Server \<Rightarrow> LogMessage" where
  "final_message env s =
     \<lparr>Level = ''complete'', Source = ''runner'',
      Message =
        (if boot_fails (cluster env) then ''COMPLETE:FAILED:K3s startup failed''
         else if fst (InstallCharts (charts_env env) (helm s)) = None
         then ''COMPLETE:SUCCESS:All tests passed''
         else ''COMPLETE:FAILED:Tests failed'')\<rparr>"








section \<open>Facts about strings and paths\<close>

lemma HasPrefix_iff: "HasPrefix s p = prefix p s"
  by (induction s p rule: HasPrefix.induct) auto

lemma HasPrefix_append [simp]: "HasPrefix (p @ s) p"
  by (simp add: HasPrefix_iff)

lemma HasSuffix_iff: "HasSuffix s suf = suffix suf s"
  by (simp add: HasSuffix_def HasPrefix_iff suffix_to_prefix)


lemma Contains_slash: "Contains s ''/'' = (CHR ''/'' \<in> set s)"
  by (induction s) auto

lemma split_sep_nonempty [simp]: "split_sep s \<noteq> []"
  by (induction s) (auto split: list.splits)

lemma join_split [simp]: "join_sep (split_sep s) = s"
proof (induction s)
  case Nil
  then show ?case by simp
next
  case (Cons c cs)
  obtain w ws where ws: "split_sep cs = w # ws"
    by (cases "split_sep cs") auto
  show ?case
  proof (cases "c = CHR ''/''")
    case True
    with Cons ws show ?thesis by simp
  next
    case False
    with Cons ws show ?thesis by (cases ws) auto
  qed
qed

lemma split_sep_append: "split_sep (a @ CHR ''/'' # b) = split_sep a @ split_sep b"
  by (induction a) (auto split: list.splits)

lemma join_sep_append:
  "a \<noteq> [] \<Longrightarrow> b \<noteq> [] \<Longrightarrow> join_sep (a @ b) = join_sep a @ ''/'' @ join_sep b"
proof (induction a rule: join_sep.induct)
  case 1
  then show ?case by simp
next
  case (2 w)
  then show ?case by (cases b) auto
next
  case (3 w v ws)
  then show ?case by simp
qed

lemma foldl_clean_push_normal:
  "list_all normal_elem cs \<Longrightarrow> foldl (clean_push r) st cs = rev cs @ st"
  by (induction cs arbitrary: st) (auto simp: clean_push_def normal_elem_def)

lemma split_sep_no_slash: "CHR ''/'' \<notin> set s \<Longrightarrow> split_sep s = [s]"
  by (induction s) auto


lemma split_sep_join:
  "ds \<noteq> [] \<Longrightarrow> \<forall>c\<in>set ds. CHR ''/'' \<notin> set c \<Longrightarrow> split_sep (join_sep ds) = ds"
proof (induction ds rule: join_sep.induct)
  case 1
  then show ?case by simp
next
  case (2 w)
  then show ?case by (simp add: split_sep_no_slash)
next
  case (3 w v ws)
  then show ?case by (simp add: split_sep_append split_sep_no_slash)
qed

lemma Join_under:
  assumes d: "d = ''/'' @ join_sep ds" and ds: "ds \<noteq> []" "list_all normal_elem ds"
    and rest: "list_all normal_elem (split_sep rest)"
  shows "Join [d, rest] = d @ ''/'' @ rest"
proof -
  have noslash: "\<forall>c\<in>set ds. CHR ''/'' \<notin> set c"
    using ds(2) by (auto simp: list_all_iff normal_elem_def)
  have rne: "rest \<noteq> []"
    using rest by (auto simp: normal_elem_def)
  have dne: "d \<noteq> []" using d by simp
  let ?p = "d @ CHR ''/'' # rest"
  have sp: "split_sep ?p = [] # ds @ split_sep rest"
    using split_sep_append [of d rest] split_sep_append [of "[]" "join_sep ds"]
      split_sep_join [OF ds(1) noslash] d by simp
  have rooted: "HasPrefix ?p ''/''" using d by simp
  have st: "foldl (clean_push True) [] (split_sep ?p) = rev (ds @ split_sep rest)"
    using foldl_clean_push_normal [of "ds @ split_sep rest" True "[]"] ds(2) rest
    unfolding sp by (simp add: clean_push_def)
  have out: "''/'' @ join_sep (ds @ split_sep rest) = ?p"
    using join_sep_append [OF ds(1) split_sep_nonempty, of rest] d by simp
  have "Clean ?p = ?p"
    unfolding Clean_def Let_def using rooted st out by simp
  moreover have "Join [d, rest] = Clean ?p"
    using dne rne by (simp add: Join_def)
  ultimately show ?thesis by simp
qed

lemma charts_root: "DefaultChartsDir = ''/'' @ join_sep [''tmp'', ''parcel'', ''charts'']"
  by (simp add: DefaultChartsDir_def)

lemma images_root: "DefaultImagesDir = ''/'' @ join_sep [''tmp'', ''parcel'', ''images'']"
  by (simp add: DefaultImagesDir_def)

lemma Join_charts:
  "list_all normal_elem (split_sep rest) \<Longrightarrow>
   Join [DefaultChartsDir, rest] = DefaultChartsDir @ ''/'' @ rest"
  by (rule Join_under [OF charts_root]) (simp_all add: normal_elem_def)

lemma Join_images:
  "list_all normal_elem (split_sep rest) \<Longrightarrow>
   Join [DefaultImagesDir, rest] = DefaultImagesDir @ ''/'' @ rest"
  by (rule Join_under [OF images_root]) (simp_all add: normal_elem_def)

lemma Base_last_elem:
  assumes "n \<noteq> []" "CHR ''/'' \<notin> set n" "pre = [] \<or> last pre = CHR ''/''"
  shows "Base (pre @ n) = n"
proof -
  have hd: "hd (rev n) \<noteq> CHR ''/''"
    using assms(1,2) by (metis hd_rev last_in_set)
  have dw: "dropWhile (\<lambda>c. c = CHR ''/'') (rev n @ rev pre) = rev n @ rev pre"
    using assms(1) hd by (cases "rev n") auto
  have tw: "takeWhile (\<lambda>c. c \<noteq> CHR ''/'') (rev n @ rev pre) = rev n"
  proof (cases pre rule: rev_cases)
    case Nil
    then show ?thesis using assms(2) by (auto simp: takeWhile_eq_all_conv)
  next
    case (snoc ys y)
    with assms(3) have "y = CHR ''/''" by simp
    with snoc show ?thesis using assms(2) by (auto simp: takeWhile_append2 [of "rev n"] takeWhile_tail)
  qed
  show ?thesis using assms(1) dw tw by (simp add: Base_def)
qed

lemma HasSuffix_length: "HasSuffix s suf \<Longrightarrow> length suf \<le> length s"
  by (auto simp: HasSuffix_iff suffix_def)

lemma isImageTar_normal: "isImageTar name \<Longrightarrow> normal_elem name"
  by (auto simp: isImageTar_def normal_elem_def Contains_slash dest!: HasSuffix_length)

lemma isImageTar_Base: "isImageTar name \<Longrightarrow> Base name = name"
  using Base_last_elem [of name "[]"] isImageTar_normal [of name]
  by (simp add: normal_elem_def)

lemma charts_prefix_not_image: "HasPrefix name ''charts/'' \<Longrightarrow> \<not> isImageTar name"
  by (auto simp: isImageTar_def Contains_slash HasPrefix_iff prefix_def)

lemma TrimPrefix_append [simp]: "TrimPrefix (p @ s) p = s"
  by (simp add: TrimPrefix_def)

text \<open>Resolving a path below a root.\<close>

lemma split_sep_elems: "c \<in> set (split_sep s) \<Longrightarrow> CHR ''/'' \<notin> set c"
proof (induction s arbitrary: c)
  case Nil
  then show ?case by simp
next
  case (Cons x xs)
  obtain w ws where ws: "split_sep xs = w # ws" by (cases "split_sep xs") auto
  show ?case
  proof (cases "x = CHR ''/''")
    case True
    then show ?thesis using Cons by auto
  next
    case False
    then have "c = x # w \<or> c \<in> set ws" using Cons.prems ws by auto
    then show ?thesis using Cons.IH [of w] Cons.IH [of c] ws False by auto
  qed
qed

lemma dotdot_stays: "''..'' \<in> set st \<Longrightarrow> ''..'' \<in> set (clean_push False st c)"
  by (cases st) (auto simp: clean_push_def)

lemma clean_push_elems:
  "x \<in> set (clean_push r st c) \<Longrightarrow> x \<in> set st \<or> (x = c \<and> c \<noteq> [] \<and> c \<noteq> ''.'')"
  by (cases st) (auto simp: clean_push_def split: if_splits)

lemma foldl_clean_push_elems:
  "x \<in> set (foldl (clean_push r) st cs) \<Longrightarrow> x \<in> set st \<or> (x \<in> set cs \<and> x \<noteq> [] \<and> x \<noteq> ''.'')"
proof (induction cs arbitrary: x rule: rev_induct)
  case Nil
  then show ?case by simp
next
  case (snoc c cs)
  from snoc.prems have "x \<in> set (clean_push r (foldl (clean_push r) st cs) c)" by simp
  from clean_push_elems [OF this] snoc.IH [of x] show ?case by auto
qed

lemma path_elems_normal: "\<not> leads_out rest \<Longrightarrow> list_all normal_elem (path_elems rest)"
  unfolding list_all_iff normal_elem_def leads_out_def path_elems_def
  using foldl_clean_push_elems [of _ False "[]" "split_sep rest"] split_sep_elems [of _ rest]
  by auto

lemma clean_push_under:
  "''..'' \<notin> set (foldl (clean_push False) [] cs) \<Longrightarrow>
     foldl (clean_push True) base cs = foldl (clean_push False) [] cs @ base"
proof (induction cs rule: rev_induct)
  case Nil
  then show ?case by simp
next
  case (snoc c cs)
  let ?st = "foldl (clean_push False) [] cs"
  have fin: "''..'' \<notin> set (clean_push False ?st c)" using snoc.prems by simp
  then have "''..'' \<notin> set ?st" using dotdot_stays [of ?st c] by blast
  then have ih: "foldl (clean_push True) base cs = ?st @ base" by (rule snoc.IH)
  have "clean_push True (?st @ base) c = clean_push False ?st c @ base"
    using fin \<open>''..'' \<notin> set ?st\<close> by (cases ?st) (auto simp: clean_push_def)
  then show ?case using ih by simp
qed

lemma below_join: "ds \<noteq> [] \<Longrightarrow> below (''/'' @ join_sep ds) ks = ''/'' @ join_sep (ds @ ks)"
proof (induction ks arbitrary: ds)
  case Nil
  then show ?case by simp
next
  case (Cons k ks)
  have "join_sep (ds @ [k]) = join_sep ds @ ''/'' @ k"
    using join_sep_append [OF Cons.prems, of "[k]"] by simp
  then have "below ((''/'' @ join_sep ds) @ ''/'' @ k) ks = ''/'' @ join_sep ((ds @ [k]) @ ks)"
    using Cons.IH [of "ds @ [k]"] by simp
  then show ?case by simp
qed

lemma Join_below:
  assumes d: "d = ''/'' @ join_sep ds" and ds: "ds \<noteq> []" "list_all normal_elem ds"
    and rest: "\<not> leads_out rest"
  shows "Join [d, rest] = below d (path_elems rest)"
proof -
  let ?st = "foldl (clean_push False) [] (split_sep rest)"
  have noslash: "\<forall>c\<in>set ds. CHR ''/'' \<notin> set c"
    using ds(2) by (auto simp: list_all_iff normal_elem_def)
  have nodd: "''..'' \<notin> set ?st" using rest by (simp add: leads_out_def path_elems_def)
  have dne: "d \<noteq> []" using d by simp
  have base: "foldl (clean_push True) [] ([] # ds) = rev ds"
    using foldl_clean_push_normal [OF ds(2), of True "[]"] by (simp add: clean_push_def)
  have out: "''/'' @ join_sep (ds @ rev ?st) = below d (path_elems rest)"
    using below_join [OF ds(1), of "rev ?st"] d by (simp add: path_elems_def)
  have nonempty: "''/'' @ join_sep (ds @ rev ?st) \<noteq> []" by simp
  show ?thesis
  proof (cases "rest = []")
    case True
    have sp: "split_sep d = [] # ds"
      using split_sep_append [of "[]" "join_sep ds"] split_sep_join [OF ds(1) noslash] d by simp
    have "HasPrefix d ''/''" using d by simp
    moreover have "foldl (clean_push True) [] (split_sep d) = rev ds" unfolding sp by (rule base)
    ultimately have "Clean d = ''/'' @ join_sep ds"
      unfolding Clean_def Let_def by simp
    then show ?thesis using True dne d by (simp add: Join_def path_elems_def clean_push_def)
  next
    case False
    let ?p = "d @ CHR ''/'' # rest"
    have sp: "split_sep ?p = ([] # ds) @ split_sep rest"
      using split_sep_append [of d rest] split_sep_append [of "[]" "join_sep ds"]
        split_sep_join [OF ds(1) noslash] d by simp
    have rooted: "HasPrefix ?p ''/''" using d by simp
    have st: "foldl (clean_push True) [] (split_sep ?p) = ?st @ rev ds"
      unfolding sp foldl_append base by (rule clean_push_under [OF nodd])
    have "Clean ?p = ''/'' @ join_sep (ds @ rev ?st)"
      unfolding Clean_def Let_def using rooted st by simp
    moreover have "Join [d, rest] = Clean ?p"
      using dne False by (simp add: Join_def)
    ultimately show ?thesis using out by simp
  qed
qed

lemma Join_charts_below:
  "\<not> leads_out rest \<Longrightarrow> Join [DefaultChartsDir, rest] = below DefaultChartsDir (path_elems rest)"
  by (rule Join_below [OF charts_root]) (simp_all add: normal_elem_def)

lemma path_elems_plain:
  "list_all normal_elem (split_sep rest) \<Longrightarrow> path_elems rest = split_sep rest"
  using foldl_clean_push_normal [of "split_sep rest" False "[]"] by (simp add: path_elems_def)

lemma plain_stays: "list_all normal_elem (split_sep rest) \<Longrightarrow> \<not> leads_out rest"
  by (auto simp: leads_out_def path_elems_plain list_all_iff normal_elem_def)

lemma below_plain:
  assumes "list_all normal_elem (split_sep rest)"
  shows "below DefaultChartsDir (path_elems rest) = DefaultChartsDir @ ''/'' @ rest"
  using Join_charts_below [OF plain_stays [OF assms]] Join_charts [OF assms] by simp

text \<open>What \<open>MkdirAll\<close> leaves behind.\<close>

lemma mkdir_chain_keeps:
  "mkdir_chain f ds = Inr f' \<Longrightarrow> node_at f p = Some Directory \<Longrightarrow> node_at f' p = Some Directory"
proof (induction ds arbitrary: f)
  case Nil
  then show ?case by simp
next
  case (Cons d ds)
  show ?case
  proof (cases "node_at f d")
    case None
    then have m: "mkdir_chain (f(d \<mapsto> Directory)) ds = Inr f'" using Cons.prems(1) by simp
    have "p \<noteq> d" using None Cons.prems(2) by auto
    then have "node_at (f(d \<mapsto> Directory)) p = Some Directory"
      using Cons.prems(2) by (auto simp: node_at_def split: if_splits)
    from Cons.IH [OF m this] show ?thesis .
  next
    case (Some n)
    then have m: "mkdir_chain f ds = Inr f'" using Cons.prems(1) by (cases n) auto
    from Cons.IH [OF m Cons.prems(2)] show ?thesis .
  qed
qed

lemma mkdir_chain_dirs:
  "mkdir_chain f ds = Inr f' \<Longrightarrow> d \<in> set ds \<Longrightarrow> node_at f' d = Some Directory"
proof (induction ds arbitrary: f)
  case Nil
  then show ?case by simp
next
  case (Cons x ds)
  show ?case
  proof (cases "node_at f x")
    case None
    then have m: "mkdir_chain (f(x \<mapsto> Directory)) ds = Inr f'" using Cons.prems(1) by simp
    show ?thesis
    proof (cases "d = x")
      case True
      have "node_at (f(x \<mapsto> Directory)) x = Some Directory" by (simp add: node_at_def)
      from mkdir_chain_keeps [OF m this] True show ?thesis by simp
    next
      case False
      then have "d \<in> set ds" using Cons.prems(2) by simp
      from Cons.IH [OF m this] show ?thesis .
    qed
  next
    case (Some n)
    then have m: "mkdir_chain f ds = Inr f'" and dir: "node_at f x = Some Directory"
      using Cons.prems(1) by (cases n; simp)+
    show ?thesis
    proof (cases "d = x")
      case True
      from mkdir_chain_keeps [OF m dir] True show ?thesis by simp
    next
      case False
      then have "d \<in> set ds" using Cons.prems(2) by simp
      from Cons.IH [OF m this] show ?thesis .
    qed
  qed
qed

lemma ancestors_self:
  assumes "cs \<noteq> []" "\<forall>c\<in>set cs. c \<noteq> [] \<and> CHR ''/'' \<notin> set c"
  shows "''/'' @ join_sep cs \<in> set (ancestors (''/'' @ join_sep cs))"
proof -
  let ?p = "''/'' @ join_sep cs"
  have sp: "split_sep ?p = [] # cs"
    using split_sep_append [of "[]" "join_sep cs"] split_sep_join [OF assms(1)] assms(2) by simp
  have f: "filter (\<lambda>c. c \<noteq> []) (split_sep ?p) = cs"
    unfolding sp using assms(2) by (simp add: filter_id_conv)
  have k: "length cs \<in> set [1..<Suc (length cs)]" using assms(1) by (cases cs) auto
  have "?p = ''/'' @ join_sep (take (length cs) cs)" by simp
  then have "?p \<in> (\<lambda>k. ''/'' @ join_sep (take k cs)) ` set [1..<Suc (length cs)]"
    using k by (rule image_eqI)
  then show ?thesis unfolding ancestors_def Let_def f by simp
qed

lemma MkdirAll_below:
  assumes "MkdirAll f (below DefaultChartsDir ks) = Inr f'" "list_all normal_elem ks"
  shows "f' (below DefaultChartsDir ks) = Some Directory"
proof -
  let ?cs = "[''tmp'', ''parcel'', ''charts''] @ ks"
  have e: "below DefaultChartsDir ks = ''/'' @ join_sep ?cs"
    using below_join [of "[''tmp'', ''parcel'', ''charts'']" ks] by (simp add: DefaultChartsDir_def)
  have n: "\<forall>c\<in>set ?cs. c \<noteq> [] \<and> CHR ''/'' \<notin> set c"
    using assms(2) by (auto simp: list_all_iff normal_elem_def)
  have "''/'' @ join_sep ?cs \<in> set (ancestors (''/'' @ join_sep ?cs))"
    by (rule ancestors_self [OF _ n]) simp
  then have "node_at f' (''/'' @ join_sep ?cs) = Some Directory"
    using assms(1) mkdir_chain_dirs unfolding MkdirAll_def e by blast
  then show ?thesis unfolding e by (simp add: node_at_def split: if_splits)
qed

section \<open>Properties of the extractor\<close>

lemma extract_loop_world: "snd (extract_loop te r w) = process_all te (entries_of r) w"
  by (induction te r w rule: extract_loop.induct) (simp_all add: process_all_def)

lemma extract_loop_error:
  "fst (extract_loop te r w) = (if Corrupt \<in> set r then Some TarReadError else None)"
  by (induction te r w rule: extract_loop.induct) simp_all

lemma fs_call [simp]: "fs (call cb n w) = fs w"
  by (simp add: call_def split: option.splits)

lemma chart_found_append [simp]: "chart_found (a @ b) = chart_found a @ chart_found b"
  by (induction a rule: chart_found.induct) auto






lemma extractChart_below:
  assumes d: "chartsDir te = DefaultChartsDir" and n: "Name h = ''charts/'' @ rest"
    and r: "\<not> leads_out rest" and ok: "fst (extractChart te h body intact w) = None"
  shows "fs (extract_entry te h body intact w) (below DefaultChartsDir (path_elems rest))
           = Some (if Typeflag h = TypeDir then Directory else File body)"
proof -
  have p: "HasPrefix (Name h) ''charts/''" using n by simp
  have cls: "\<not> isImageTar (Name h)" "isChartFile (Name h)"
    using charts_prefix_not_image [OF p] p by (simp_all add: isChartFile_def)
  have t: "TrimPrefix (Name h) ''charts/'' = rest" unfolding n by (rule TrimPrefix_append)
  have j: "Join [chartsDir te, TrimPrefix (Name h) ''charts/''] = below DefaultChartsDir (path_elems rest)"
    using Join_charts_below [OF r] d t by simp
  show ?thesis
  proof (cases "Typeflag h = TypeDir")
    case True
    then obtain f1 where m: "MkdirAll (fs w) (below DefaultChartsDir (path_elems rest)) = Inr f1"
      and e: "extract_entry te h body intact w = w\<lparr>fs := f1\<rparr>"
      using ok cls j by (auto simp: extract_entry_def extractChart_def Let_def split: sum.splits)
    from MkdirAll_below [OF m path_elems_normal [OF r]] e True show ?thesis by simp
  next
    case False
    then show ?thesis using ok cls j
      by (auto simp: extract_entry_def extractChart_def Let_def Copy_def
          split: sum.splits prod.splits option.splits if_splits)
  qed
qed

text \<open>
  C4 (as amended).  For one entry processed by the loop of \<open>Extract\<close>, in any world,
  with the roots every extractor of the program has.  An image entry whose
  extraction does not fail has its bytes at \<open>/tmp/parcel/images/<name>\<close>, its name
  being its own base name.  An entry named \<open>charts/<rest>\<close>, where \<open>rest\<close> does not lead
  out of the directory it starts in, is a chart file and never an image, and when
  its extraction does not fail it is found at the path \<open>rest\<close> resolves to below
  \<open>/tmp/parcel/charts\<close>: a directory entry as a directory, any other entry as a file
  with its bytes; for a remainder made of ordinary elements that path is
  \<open>/tmp/parcel/charts/<rest>\<close>, the nested structure kept.  An entry that is not an
  image, not named \<open>charts/...\<close> and without \<open>Chart.yaml\<close> in its name leaves the world
  (files, callback state, process log) as it was.
\<close>

theorem extract_entry_destinations:
  "(imagesDir te = DefaultImagesDir \<longrightarrow> isImageTar (Name h) \<longrightarrow>
      fst (extractImage te h body intact w) = None \<longrightarrow>
        Base (Name h) = Name h
        \<and> fs (extract_entry te h body intact w) (DefaultImagesDir @ ''/'' @ Base (Name h)) = Some (File body))
   \<and> (chartsDir te = DefaultChartsDir \<longrightarrow> Name h = ''charts/'' @ rest \<longrightarrow> \<not> leads_out rest \<longrightarrow>
        \<not> isImageTar (Name h) \<and> isChartFile (Name h)
        \<and> (fst (extractChart te h body intact w) = None \<longrightarrow>
             fs (extract_entry te h body intact w) (below DefaultChartsDir (path_elems rest))
               = Some (if Typeflag h = TypeDir then Directory else File body)))
   \<and> (list_all normal_elem (split_sep rest) \<longrightarrow>
        \<not> leads_out rest \<and> below DefaultChartsDir (path_elems rest) = DefaultChartsDir @ ''/'' @ rest)
   \<and> (\<not> isImageTar (Name h) \<longrightarrow> \<not> HasPrefix (Name h) ''charts/'' \<longrightarrow>
        \<not> Contains (Name h) ''Chart.yaml'' \<longrightarrow> extract_entry te h body intact w = w)"
proof (intro conjI impI)
  assume d: "imagesDir te = DefaultImagesDir" and img: "isImageTar (Name h)"
    and ok: "fst (extractImage te h body intact w) = None"
  show b: "Base (Name h) = Name h" using isImageTar_Base [OF img] .
  have "Join [imagesDir te, Base (Name h)] = DefaultImagesDir @ ''/'' @ Name h"
    using d b isImageTar_normal [OF img] Join_images [of "Name h"]
    by (simp add: split_sep_no_slash normal_elem_def)
  then show "fs (extract_entry te h body intact w) (DefaultImagesDir @ ''/'' @ Base (Name h)) = Some (File body)"
    using img ok b
    by (auto simp: extract_entry_def extractImage_def Let_def Copy_def
        split: sum.splits prod.splits option.splits if_splits)
next
  assume n: "Name h = ''charts/'' @ rest"
  then have p: "HasPrefix (Name h) ''charts/''" by simp
  show "\<not> isImageTar (Name h)" using charts_prefix_not_image [OF p] .
  show "isChartFile (Name h)" using p by (simp add: isChartFile_def)
  assume d: "chartsDir te = DefaultChartsDir" and r: "\<not> leads_out rest"
    and ok: "fst (extractChart te h body intact w) = None"
  show "fs (extract_entry te h body intact w) (below DefaultChartsDir (path_elems rest))
               = Some (if Typeflag h = TypeDir then Directory else File body)"
    using d n r ok by (rule extractChart_below)
next
  assume a: "list_all normal_elem (split_sep rest)"
  show "\<not> leads_out rest" using a by (rule plain_stays)
  show "below DefaultChartsDir (path_elems rest) = DefaultChartsDir @ ''/'' @ rest"
    using a by (rule below_plain)
next
  assume "\<not> isImageTar (Name h)" "\<not> HasPrefix (Name h) ''charts/''" "\<not> Contains (Name h) ''Chart.yaml''"
  then show "extract_entry te h body intact w = w"
    by (simp add: extract_entry_def isChartFile_def)
qed

theorem extract_entry_destinations_witness:
  "fs (extract_entry demo_extractor (reg ''nginx_1.25.tar'') ''layers'' True world1)
      ''/tmp/parcel/images/nginx_1.25.tar'' = Some (File ''layers'')
   \<and> fs (extract_entry demo_extractor (reg ''charts/demo/templates/svc.yaml'') ''kind: Service'' True world1)
      ''/tmp/parcel/charts/demo/templates/svc.yaml'' = Some (File ''kind: Service'')
   \<and> fs (extract_entry demo_extractor (dirent ''charts/demo/./crds//old/../'') [] True world1)
      ''/tmp/parcel/charts/demo/crds'' = Some Directory
   \<and> extract_entry demo_extractor (reg ''README.md'') ''hello'' True world1 = world1"
proof -
  have dirs: "imagesDir demo_extractor = DefaultImagesDir" "chartsDir demo_extractor = DefaultChartsDir"
    by (simp_all add: demo_extractor_def recording_def NewTarExtractor_def)
  have i1: "isImageTar (Name (reg ''nginx_1.25.tar''))" by code_simp
  have i2: "fst (extractImage demo_extractor (reg ''nginx_1.25.tar'') ''layers'' True world1) = None"
    by code_simp
  have i3: "Base (Name (reg ''nginx_1.25.tar'')) = ''nginx_1.25.tar''" by code_simp
  have c0: "Name (reg ''charts/demo/templates/svc.yaml'') = ''charts/'' @ ''demo/templates/svc.yaml''"
    by (simp add: reg_def)
  have c1: "Typeflag (reg ''charts/demo/templates/svc.yaml'') \<noteq> TypeDir" by code_simp
  have c2: "fst (extractChart demo_extractor (reg ''charts/demo/templates/svc.yaml'')
      ''kind: Service'' True world1) = None" by code_simp
  have c3: "list_all normal_elem (split_sep ''demo/templates/svc.yaml'')" by code_simp
  have d0: "Name (dirent ''charts/demo/./crds//old/../'') = ''charts/'' @ ''demo/./crds//old/../''"
    by (simp add: dirent_def)
  have d1: "Typeflag (dirent ''charts/demo/./crds//old/../'') = TypeDir" by (simp add: dirent_def)
  have d2: "fst (extractChart demo_extractor (dirent ''charts/demo/./crds//old/../'') [] True world1) = None"
    by code_simp
  have d3: "\<not> leads_out ''demo/./crds//old/../''" by code_simp
  have d4: "below DefaultChartsDir (path_elems ''demo/./crds//old/../'') = ''/tmp/parcel/charts/demo/crds''"
    by code_simp
  have n1: "\<not> isImageTar (Name (reg ''README.md''))" "\<not> HasPrefix (Name (reg ''README.md'')) ''charts/''"
    "\<not> Contains (Name (reg ''README.md'')) ''Chart.yaml''"
    by code_simp+
  have a: "fs (extract_entry demo_extractor (reg ''nginx_1.25.tar'') ''layers'' True world1)
      (DefaultImagesDir @ ''/'' @ ''nginx_1.25.tar'') = Some (File ''layers'')"
    using extract_entry_destinations [of demo_extractor "reg ''nginx_1.25.tar''" "''layers''" True world1 "[]"]
      i1 i2 i3 dirs by auto
  have b: "fs (extract_entry demo_extractor (reg ''charts/demo/templates/svc.yaml'') ''kind: Service'' True world1)
      (DefaultChartsDir @ ''/'' @ ''demo/templates/svc.yaml'') = Some (File ''kind: Service'')"
    using extract_entry_destinations [of demo_extractor "reg ''charts/demo/templates/svc.yaml''"
        "''kind: Service''" True world1 "''demo/templates/svc.yaml''"]
      c0 c1 c2 c3 dirs by auto
  have c: "fs (extract_entry demo_extractor (dirent ''charts/demo/./crds//old/../'') [] True world1)
      ''/tmp/parcel/charts/demo/crds'' = Some Directory"
    using extract_entry_destinations [of demo_extractor "dirent ''charts/demo/./crds//old/../''"
        "[]" True world1 "''demo/./crds//old/../''"]
      d0 d1 d2 d3 d4 dirs by auto
  have d: "extract_entry demo_extractor (reg ''README.md'') ''hello'' True world1 = world1"
    using extract_entry_destinations [of demo_extractor "reg ''README.md''" "''hello''" True world1 "[]"]
      n1 by simp
  show ?thesis using a b c d by (simp add: DefaultImagesDir_def DefaultChartsDir_def)
qed

text \<open>
  C4 as stated fails in four ways.  An entry outside \<open>charts/\<close> whose name contains
  \<open>Chart.yaml\<close> is neither an image nor under \<open>charts/\<close>, yet it is written and the
  chart callback fires.  An entry \<open>charts/../../escape/Chart.yaml\<close> is written without
  a warning, and not below the charts root.  An entry under \<open>charts/\<close> whose parent
  is a regular file is not written.  An image whose target is a directory is not
  written.
\<close>

theorem stray_chart_yaml_counterexample:
  "\<not> isImageTar ''demo/Chart.yaml'' \<and> \<not> HasPrefix ''demo/Chart.yaml'' ''charts/'' \<and>
   fs (extract_entry demo_extractor (reg ''demo/Chart.yaml'') ''name: demo'' True world1)
      ''/tmp/parcel/charts/demo/Chart.yaml'' = Some (File ''name: demo'') \<and>
   cbstate (extract_entry demo_extractor (reg ''demo/Chart.yaml'') ''name: demo'' True world1)
      = [ChartFound ''demo''] \<and>
   plog (extract_entry demo_extractor (reg ''charts/../../escape/Chart.yaml'') ''name: out'' True world1) = [] \<and>
   fs (extract_entry demo_extractor (reg ''charts/../../escape/Chart.yaml'') ''name: out'' True world1)
      ''/tmp/escape/Chart.yaml'' = Some (File ''name: out'') \<and>
   \<not> HasPrefix ''/tmp/escape/Chart.yaml'' (DefaultChartsDir @ ''/'') \<and>
   plog (snd (Extract demo_extractor clashing_stream world0)) ! 0
      = WarnChart ''charts/a/b'' (PathError ''mkdir'' ''/tmp/parcel/charts/a'' ENOTDIR) \<and>
   fs (snd (Extract demo_extractor clashing_stream world0)) ''/tmp/parcel/charts/a/b'' = None \<and>
   isImageTar ''late.tgz'' \<and>
   plog (extract_entry demo_extractor (reg ''late.tgz'') ''layers'' True occupied_world)
      = [WarnImage ''late.tgz'' (PathError ''open'' ''/tmp/parcel/images/late.tgz'' EISDIR)] \<and>
   fs (extract_entry demo_extractor (reg ''late.tgz'') ''layers'' True occupied_world)
      ''/tmp/parcel/images/late.tgz'' = Some Directory"
  by code_simp




lemma failed_entry_skipped:
  "(isImageTar (Name h) \<longrightarrow> fst (extractImage te h body intact w) \<noteq> None \<longrightarrow>
      cbstate (extract_entry te h body intact w) = cbstate w
      \<and> (\<exists>e. plog (extract_entry te h body intact w) = plog w @ [WarnImage (Name h) e]))
   \<and> (\<not> isImageTar (Name h) \<longrightarrow> isChartFile (Name h) \<longrightarrow>
      fst (extractChart te h body intact w) \<noteq> None \<longrightarrow>
      cbstate (extract_entry te h body intact w) = cbstate w
      \<and> (\<exists>e. plog (extract_entry te h body intact w) = plog w @ [WarnChart (Name h) e]))"
  by (auto simp: extract_entry_def extractImage_def extractChart_def Let_def Copy_def
      split: sum.splits prod.splits option.splits if_splits)

text \<open>
  C8 (as amended).  \<open>Extract\<close> fails exactly when a destination root cannot be created
  or when the tar reader cannot read the next header; a failure inside
  \<open>extractImage\<close> or \<open>extractChart\<close> never makes it fail.  When both roots are
  created, the resulting world is the loop body applied to every entry the reader
  reaches, in order, whether or not earlier entries failed; and an entry whose
  extraction fails gets one warning on the process log and no callback.
\<close>

theorem Extract_error_cases:
  "fst (Extract te r w) =
     (case MkdirAll (fs w) (imagesDir te) of
        Inl e \<Rightarrow> Some (ImagesDirError e)
      | Inr f1 \<Rightarrow>
          (case MkdirAll f1 (chartsDir te) of
             Inl e \<Rightarrow> Some (ChartsDirError e)
           | Inr f2 \<Rightarrow> if Corrupt \<in> set r then Some TarReadError else None))
   \<and> (\<forall>f1 f2. MkdirAll (fs w) (imagesDir te) = Inr f1 \<longrightarrow> MkdirAll f1 (chartsDir te) = Inr f2 \<longrightarrow>
         snd (Extract te r w) = process_all te (entries_of r) (w\<lparr>fs := f2\<rparr>))
   \<and> (\<forall>h body intact v.
         (isImageTar (Name h) \<and> fst (extractImage te h body intact v) \<noteq> None
          \<or> \<not> isImageTar (Name h) \<and> isChartFile (Name h) \<and> fst (extractChart te h body intact v) \<noteq> None) \<longrightarrow>
         cbstate (extract_entry te h body intact v) = cbstate v
         \<and> (\<exists>line. is_warning line \<and> plog (extract_entry te h body intact v) = plog v @ [line]))"
proof (intro conjI allI impI)
  show "fst (Extract te r w) =
     (case MkdirAll (fs w) (imagesDir te) of
        Inl e \<Rightarrow> Some (ImagesDirError e)
      | Inr f1 \<Rightarrow>
          (case MkdirAll f1 (chartsDir te) of
             Inl e \<Rightarrow> Some (ChartsDirError e)
           | Inr f2 \<Rightarrow> if Corrupt \<in> set r then Some TarReadError else None))"
  proof (cases "MkdirAll (fs w) (imagesDir te)")
    case (Inl e)
    then show ?thesis by (simp add: Extract_def)
  next
    case (Inr f1)
    then show ?thesis
      by (cases "MkdirAll f1 (chartsDir te)") (simp_all add: Extract_def extract_loop_error)
  qed
next
  fix f1 f2
  assume "MkdirAll (fs w) (imagesDir te) = Inr f1" "MkdirAll f1 (chartsDir te) = Inr f2"
  then show "snd (Extract te r w) = process_all te (entries_of r) (w\<lparr>fs := f2\<rparr>)"
    by (simp add: Extract_def extract_loop_world)
next
  fix h body intact v
  assume "isImageTar (Name h) \<and> fst (extractImage te h body intact v) \<noteq> None
          \<or> \<not> isImageTar (Name h) \<and> isChartFile (Name h) \<and> fst (extractChart te h body intact v) \<noteq> None"
  with failed_entry_skipped [of h te body intact v]
  show "cbstate (extract_entry te h body intact v) = cbstate v" by blast
next
  fix h body intact v
  assume "isImageTar (Name h) \<and> fst (extractImage te h body intact v) \<noteq> None
          \<or> \<not> isImageTar (Name h) \<and> isChartFile (Name h) \<and> fst (extractChart te h body intact v) \<noteq> None"
  with failed_entry_skipped [of h te body intact v]
  consider e where "plog (extract_entry te h body intact v) = plog v @ [WarnImage (Name h) e]"
    | e where "plog (extract_entry te h body intact v) = plog v @ [WarnChart (Name h) e]"
    by blast
  then show "\<exists>line. is_warning line \<and> plog (extract_entry te h body intact v) = plog v @ [line]"
    by cases (use is_warning.simps in blast)+
qed

theorem Extract_error_cases_witness:
  "fst (Extract demo_extractor clashing_stream world0) = None \<and>
   plog (snd (Extract demo_extractor clashing_stream world0)) =
     [WarnChart ''charts/a/b'' (PathError ''mkdir'' ''/tmp/parcel/charts/a'' ENOTDIR), ExtractedImage ''late.tgz'' ''/tmp/parcel/images/late.tgz''] \<and>
   cbstate (snd (Extract demo_extractor clashing_stream world0)) = [ImageFound ''late.tgz'']"
proof -
  let ?te = demo_extractor and ?w = world0
  obtain f1 where f1: "MkdirAll (fs ?w) (imagesDir ?te) = Inr f1"
    by (cases "MkdirAll (fs ?w) (imagesDir ?te)")
      (simp_all add: demo_extractor_def recording_def NewTarExtractor_def world0_def MkdirAll_def
        ancestors_def DefaultImagesDir_def node_at_def)
  have rhs: "(case MkdirAll (fs ?w) (imagesDir ?te) of
        Inl e \<Rightarrow> Some (ImagesDirError e)
      | Inr f1 \<Rightarrow>
          (case MkdirAll f1 (chartsDir ?te) of
             Inl e \<Rightarrow> Some (ChartsDirError e)
           | Inr f2 \<Rightarrow> if Corrupt \<in> set clashing_stream then Some TarReadError else None)) = None"
    by code_simp
  then obtain f2 where f2: "MkdirAll f1 (chartsDir ?te) = Inr f2"
    using f1 by (cases "MkdirAll f1 (chartsDir ?te)") simp_all
  have e: "fst (Extract ?te clashing_stream ?w) = None"
    using Extract_error_cases [of ?te clashing_stream ?w] rhs by simp
  have "snd (Extract ?te clashing_stream ?w) = process_all ?te (entries_of clashing_stream) (?w\<lparr>fs := f2\<rparr>)"
    using Extract_error_cases [of ?te clashing_stream ?w] f1 f2 by blast
  moreover have "plog (snd (Extract ?te clashing_stream ?w)) =
     [WarnChart ''charts/a/b'' (PathError ''mkdir'' ''/tmp/parcel/charts/a'' ENOTDIR), ExtractedImage ''late.tgz'' ''/tmp/parcel/images/late.tgz'']"
    by code_simp
  moreover have "cbstate (snd (Extract ?te clashing_stream ?w)) = [ImageFound ''late.tgz'']"
    by code_simp
  ultimately show ?thesis using e by simp
qed

text \<open>
  C8 as stated fails: both roots are created, yet a stream cut off after its first
  entry makes \<open>Extract\<close> return the tar read error.
\<close>

theorem truncated_stream_counterexample:
  "\<not> isl (MkdirAll (fs world0) (imagesDir demo_extractor)) \<and>
   \<not> isl (MkdirAll (projr (MkdirAll (fs world0) (imagesDir demo_extractor))) (chartsDir demo_extractor)) \<and>
   fst (Extract demo_extractor truncated_stream world0) = Some TarReadError"
  by code_simp

section \<open>Properties of the handlers and the state machine\<close>

lemma broadcastLog_fields [simp]:
  "state (broadcastLog a b c s) = state s"
  "k3s (broadcastLog a b c s) = k3s s"
  "helm (broadcastLog a b c s) = helm s"
  "debug (broadcastLog a b c s) = debug s"
  "logBuffer (broadcastLog a b c s) = Add \<lparr>Level = b, Source = a, Message = c\<rparr> (logBuffer s)"
  by (simp_all add: broadcastLog_def Let_def)

lemma run_actions_Nil [simp]: "run_actions [] s = s"
  by (simp add: run_actions_def)

lemma run_actions_Cons [simp]: "run_actions (a # as) s = run_actions as (run_action s a)"
  by (simp add: run_actions_def)

lemma run_actions_append [simp]: "run_actions (as @ bs) s = run_actions bs (run_actions as s)"
  by (simp add: run_actions_def)

lemma current_run_actions:
  "current (state (run_actions as s)) = (if transitions as = [] then current (state s) else last (transitions as))"
proof (induction as arbitrary: s)
  case Nil
  then show ?case by simp
next
  case (Cons a as)
  show ?case
    by (cases a) (simp_all add: Cons Transition_def Let_def IncrementImages_def IncrementCharts_def
      broadcastLog_def transition_hook_def updateStatus_def)
qed

lemma transitions_prefix: "prefix p as \<Longrightarrow> prefix (transitions p) (transitions as)"
proof (induction p arbitrary: as)
  case Nil
  then show ?case by simp
next
  case (Cons a p)
  then obtain as' where as: "as = a # as'" and p: "prefix p as'"
    by (cases as) auto
  from Cons.IH [OF p] show ?case unfolding as by (cases a) simp_all
qed

lemma emitted_Nil [simp]: "emitted [] = []"
  by (simp add: emitted_def)

lemma emitted_Cons [simp]: "emitted (a # as) = emitted_by a @ emitted as"
  by (simp add: emitted_def)

lemma emitted_append [simp]: "emitted (as @ bs) = emitted as @ emitted bs"
  by (simp add: emitted_def)

lemma completions_Nil [simp]: "completions [] = []"
  by (simp add: completions_def)

lemma completions_append [simp]: "completions (as @ bs) = completions as @ completions bs"
  by (simp add: completions_def)

lemma completions_Cons:
  "completions (a # as) = filter (\<lambda>m. Level m = ''complete'') (emitted_by a) @ completions as"
  by (simp add: completions_def)

lemma transitions_append [simp]: "transitions (as @ bs) = transitions as @ transitions bs"
  by (induction as rule: transitions.induct) simp_all

lemma background_quiet:
  "background a \<Longrightarrow> filter (\<lambda>m. Level m = ''complete'') (emitted_by a) = [] \<and> transitions (a # as) = transitions as"
  by (cases a) (simp_all add: filter_empty_conv)

lemma shuffled_background:
  "l \<in> shuffles xs ys \<Longrightarrow> list_all background ys \<Longrightarrow>
     completions l = completions xs \<and> transitions l = transitions xs"
proof (induction l arbitrary: xs ys)
  case Nil
  then show ?case by simp
next
  case (Cons z zs)
  from Cons.prems(1) consider
      xs' where "xs = z # xs'" "zs \<in> shuffles xs' ys"
    | ys' where "ys = z # ys'" "zs \<in> shuffles xs ys'"
    by (auto simp: Cons_in_shuffles_iff neq_Nil_conv)
  then show ?case
  proof cases
    case 1
    from Cons.IH [OF 1(2) Cons.prems(2)] show ?thesis
      unfolding 1(1) by (cases z) (simp_all add: completions_Cons)
  next
    case 2
    with Cons.prems(2) have b: "background z" and r: "list_all background ys'" by simp_all
    from Cons.IH [OF 2(2) r] background_quiet [OF b] show ?thesis
      by (simp add: completions_Cons)
  qed
qed

text \<open>
  C1.  An upload request (a \<open>POST\<close>) that arrives while the lifecycle state is not
  \<open>Idle\<close> is answered with 409 Conflict; it performs no action on the server, so the
  server (lifecycle state, counters, log bus, connections) is as before; the file
  system is untouched, \<open>Extract\<close> is not called, and no background task is started.
\<close>

theorem HandleUpload_not_idle:
  assumes "Current (state s) \<noteq> StateIdle" and "Method r = ''POST''"
  shows "StatusCode (resp (HandleUpload r s d)) = StatusConflict
    \<and> run_actions (acts (HandleUpload r s d)) s = s
    \<and> disk (HandleUpload r s d) = d
    \<and> extract_calls (HandleUpload r s d) = []
    \<and> \<not> started (HandleUpload r s d)"
  using assms by (simp add: HandleUpload_def run_actions_def)

theorem HandleUpload_not_idle_witness:
  "StatusCode (resp (HandleUpload upload_a busy_server Map.empty)) = 409
    \<and> run_actions (acts (HandleUpload upload_a busy_server Map.empty)) busy_server = busy_server
    \<and> extract_calls (HandleUpload upload_a busy_server Map.empty) = []
    \<and> \<not> started (HandleUpload upload_a busy_server Map.empty)"
proof -
  have a: "Current (state busy_server) \<noteq> StateIdle"
    by (simp add: busy_server_def Current_def Transition_def NewServer_def OnTransition_def
        NewStateMachine_def Let_def)
  have b: "Method upload_a = ''POST''" by (simp add: upload_a_def)
  show ?thesis using HandleUpload_not_idle [OF a b, of Map.empty] by (simp add: StatusConflict_def)
qed

text \<open>
  A request with another method is turned away before the state is looked at, with
  405; it changes nothing either.
\<close>

lemma HandleUpload_rejected:
  assumes "Current (state s) \<noteq> StateIdle"
  shows "HandleUpload r s d =
     \<lparr>resp = \<lparr>StatusCode = (if Method r = ''POST'' then StatusConflict else StatusMethodNotAllowed),
               Text = (if Method r = ''POST'' then ''Server not in IDLE state'' else ''Method not allowed'')\<rparr>,
      acts = [], disk = d, extract_calls = [], started = False\<rparr>"
  using assms by (simp add: HandleUpload_def)

lemma waitForKubeconfig_iff: "(waitForKubeconfig ticks \<noteq> None) = (\<forall>t \<in> set ticks. \<not> t)"
  by (induction ticks) auto

lemma waitForReady_iff:
  "(waitForReady ticks \<noteq> None) =
     (\<forall>(healthz, readyz) \<in> set ticks. \<not> answers_ready healthz \<and> \<not> answers_ready readyz)"
  by (induction ticks rule: waitForReady.induct) auto

lemma Start_fails_iff: "(fst (Start env km) \<noteq> None) = boot_fails env"
  using waitForKubeconfig_iff [of "kubeconfig_ticks env"] waitForReady_iff [of "ready_ticks env"]
  by (auto simp: Start_def boot_fails_def split: option.splits)

lemma Start_fails_manager: "fst (Start env km) \<noteq> None \<Longrightarrow> snd (Start env km) = km"
  by (auto simp: Start_def split: option.splits)

text \<open>
  C6.  Whenever cluster boot fails (the process does not start, or the kubeconfig
  file is seen at no tick before its timer fires, or no tick of the readiness wait
  finds a health endpoint answering 200 or 401 before its timer fires), \<open>Start\<close>
  returns an error; the background task then enters \<open>Starting\<close> and goes back to
  \<open>Idle\<close>, where it ends; at no moment of the run is the state \<open>Ready\<close>, also when
  transition hooks and cluster output run in between; and the manager is not marked
  ready.
\<close>

theorem boot_failure_returns_to_idle:
  assumes "boot_fails (cluster env)" and "current (state s) \<noteq> StateReady"
  shows "fst (Start (cluster env) (k3s s)) \<noteq> None
    \<and> transitions (startK3s env s) = [StateStarting, StateIdle]
    \<and> current (state (run_actions (startK3s env s) s)) = StateIdle
    \<and> (\<forall>p. prefix p (startK3s env s) \<longrightarrow> current (state (run_actions p s)) \<noteq> StateReady)
    \<and> (\<forall>extra l p. list_all background extra \<longrightarrow> l \<in> shuffles (startK3s env s) extra \<longrightarrow>
          prefix p l \<longrightarrow> current (state (run_actions p s)) \<noteq> StateReady)
    \<and> k3s (run_actions (startK3s env s) s) = k3s s"
proof -
  have f: "fst (Start (cluster env) (k3s s)) \<noteq> None"
    using assms(1) Start_fails_iff [of "cluster env" "k3s s"] by blast
  then obtain err km where st: "Start (cluster env) (k3s s) = (Some err, km)"
    by (cases "Start (cluster env) (k3s s)") auto
  have acts: "startK3s env s =
      [ATransition StateStarting,
       ABroadcast ''k3s'' ''error'' (''Startup failed: '' @ k3s_error_text err),
       ABroadcast ''runner'' ''complete'' ''COMPLETE:FAILED:K3s startup failed'',
       ATransition StateIdle]"
    by (simp add: startK3s_def st)
  have tr: "transitions (startK3s env s) = [StateStarting, StateIdle]"
    by (simp add: acts)
  have among: "current (state (run_actions p s)) \<noteq> StateReady"
    if "list_all background extra" "l \<in> shuffles (startK3s env s) extra" "prefix p l" for extra l p
  proof -
    from shuffled_background [OF that(2) that(1)] have "transitions l = [StateStarting, StateIdle]"
      by (simp add: tr)
    with transitions_prefix [OF that(3)] have "prefix (transitions p) [StateStarting, StateIdle]"
      by simp
    then have "transitions p \<in> {[], [StateStarting], [StateStarting, StateIdle]}"
      by (auto simp: prefix_Cons)
    then have "transitions p = [] \<or> last (transitions p) \<in> {StateStarting, StateIdle}"
      by auto
    with assms(2) show ?thesis by (auto simp: current_run_actions)
  qed
  have k: "k3s (run_actions (startK3s env s) s) = k3s s"
    by (simp add: acts)
  have never: "current (state (run_actions p s)) \<noteq> StateReady" if "prefix p (startK3s env s)" for p
    using among [of "[]" "startK3s env s" p] that by simp
  have last: "current (state (run_actions (startK3s env s) s)) = StateIdle"
    by (simp add: current_run_actions tr)
  show ?thesis using f tr never among k last by blast
qed

theorem boot_failure_returns_to_idle_witness:
  "boot_fails (cluster run_never_ready)
   \<and> fst (Start (cluster run_never_ready) (k3s transferring_server)) = Some ReadyTimeout
   \<and> transitions (startK3s run_never_ready transferring_server) = [StateStarting, StateIdle]
   \<and> current (state (run_actions (startK3s run_never_ready transferring_server) transferring_server)) = StateIdle"
proof -
  have a: "boot_fails (cluster run_never_ready)" by code_simp
  have b: "current (state transferring_server) \<noteq> StateReady" by code_simp
  have c: "fst (Start (cluster run_never_ready) (k3s transferring_server)) = Some ReadyTimeout" by code_simp
  show ?thesis using boot_failure_returns_to_idle [OF a b] a c by simp
qed


section \<open>Properties of the deployment and test orchestrator\<close>

lemma installChart_ok: "(fst (installChart env c) = None) = (cmd_error (helm_install env c) = None)"
  by (simp add: installChart_def Let_def split: option.splits)

lemma runTests_ok: "(fst (runTests env c) = None) = (cmd_error (helm_test env c) = None)"
  by (simp add: runTests_def Let_def split: option.splits)

lemma install_loop_shape:
  "install_loop env charts (fl, evs) =
     (fl @ filter (chart_fails env) charts, evs @ concat (map (chart_events env) charts))"
proof (induction charts arbitrary: fl evs)
  case Nil
  then show ?case by simp
next
  case (Cons c charts)
  obtain e1 ev1 where i: "installChart env c = (e1, ev1)" by (cases "installChart env c")
  obtain e2 ev2 where t: "runTests env c = (e2, ev2)" by (cases "runTests env c")
  have i1: "(e1 = None) = (cmd_error (helm_install env c) = None)"
    using installChart_ok [of env c] i by simp
  have t1: "(e2 = None) = (cmd_error (helm_test env c) = None)"
    using runTests_ok [of env c] t by simp
  show ?case
  proof (cases e1)
    case (Some a)
    then show ?thesis using i i1 by (simp add: Cons chart_events_def chart_fails_def)
  next
    case None
    then show ?thesis using i t i1 t1
      by (cases e2) (simp_all add: Cons chart_events_def chart_fails_def)
  qed
qed

lemma InstallCharts_shape:
  assumes "fst (ensureHelmBinary env) = None" and "discoverCharts env hm = Inr charts"
  shows "\<exists>pre. (\<forall>ev \<in> set pre. \<exists>t. ev = LoggerWrite t \<or> ev = LogPrintf t) \<and>
     InstallCharts env hm =
       (if filter (chart_fails env) charts = [] then None
        else Some (TestsFailed (filter (chart_fails env) charts)),
        pre @ concat (map (chart_events env) charts))"
proof -
  obtain evs where e: "ensureHelmBinary env = (None, evs)"
    using assms(1) by (cases "ensureHelmBinary env") auto
  have evs: "\<forall>ev \<in> set evs. \<exists>t. ev = LoggerWrite t \<or> ev = LogPrintf t"
    using e by (auto simp: ensureHelmBinary_def Let_def split: if_splits option.splits)
  show ?thesis
  proof (cases "charts = []")
    case True
    then show ?thesis using e evs assms(2)
      by (intro exI [of _ "evs @ [LogPrintf ''No charts found to install'']"])
         (auto simp: InstallCharts_def)
  next
    case False
    let ?w = "case waitForDefaultServiceAccount (service_account_ticks env) of
                Some e \<Rightarrow> [LogPrintf (''Warning: could not wait for default serviceaccount: '' @ e)]
              | None \<Rightarrow> []"
    have w: "\<forall>ev \<in> set ?w. \<exists>t. ev = LoggerWrite t \<or> ev = LogPrintf t"
      by (auto split: option.splits)
    show ?thesis using False e evs w assms(2)
      by (intro exI [of _ "evs @ ?w"])
         (auto simp: InstallCharts_def install_loop_shape Let_def split: option.splits)
  qed
qed

lemma installs_run_append [simp]: "installs_run (a @ b) = installs_run a @ installs_run b"
  by (induction a rule: installs_run.induct) simp_all

lemma tests_run_append [simp]: "tests_run (a @ b) = tests_run a @ tests_run b"
  by (induction a rule: tests_run.induct) simp_all

lemma phases_of_append [simp]: "phases_of c (a @ b) = phases_of c a @ phases_of c b"
  by (induction c a rule: phases_of.induct) simp_all

lemma quiet_events:
  assumes "\<forall>ev \<in> set pre. \<exists>t. ev = LoggerWrite t \<or> ev = LogPrintf t"
  shows "installs_run pre = []" "tests_run pre = []" "phases_of c pre = []"
  using assms by (induction pre) auto

lemma quiet_output [simp]:
  "installs_run (map LoggerWrite out) = []" "tests_run (map LoggerWrite out) = []"
  "phases_of c (map LoggerWrite out) = []"
  by (induction out) auto

lemma installs_run_chart: "installs_run (chart_events env c) = [c]"
  by (simp add: chart_events_def installChart_def runTests_def Let_def split: option.splits)

lemma tests_run_chart:
  "tests_run (chart_events env c) =
     (if cmd_error (helm_install env c) = None then [ToLower env (Base c)] else [])"
  by (simp add: chart_events_def installChart_def runTests_def Let_def split: option.splits)

lemma installs_run_concat: "installs_run (concat (map (chart_events env) charts)) = charts"
  by (induction charts) (simp_all add: installs_run_chart)

lemma tests_run_concat:
  "tests_run (concat (map (chart_events env) charts)) =
     map (\<lambda>c. ToLower env (Base c)) (filter (\<lambda>c. cmd_error (helm_install env c) = None) charts)"
  by (induction charts) (simp_all add: tests_run_chart)

text \<open>
  C2.  In a run of \<open>InstallCharts\<close> where the Helm binary is available and discovery
  succeeds: \<open>helm install\<close> is run for every discovered chart, in order, whatever
  happened to the charts before it, and \<open>helm test\<close> for every chart whose install
  succeeded; \<open>InstallCharts\<close> returns an error if and only if some chart failed, and
  the error then lists exactly the charts that failed.
\<close>

theorem InstallCharts_continue_on_error:
  assumes "fst (ensureHelmBinary env) = None" and "discoverCharts env hm = Inr charts"
  shows "installs_run (snd (InstallCharts env hm)) = charts
    \<and> tests_run (snd (InstallCharts env hm)) =
        map (\<lambda>c. ToLower env (Base c)) (filter (\<lambda>c. cmd_error (helm_install env c) = None) charts)
    \<and> (fst (InstallCharts env hm) \<noteq> None) = (\<exists>c \<in> set charts. chart_fails env c)
    \<and> (fst (InstallCharts env hm) \<noteq> None \<longrightarrow>
         fst (InstallCharts env hm) = Some (TestsFailed (filter (chart_fails env) charts)))"
proof -
  from InstallCharts_shape [OF assms] obtain pre where
    q: "\<forall>ev \<in> set pre. \<exists>t. ev = LoggerWrite t \<or> ev = LogPrintf t"
    and r: "InstallCharts env hm =
       (if filter (chart_fails env) charts = [] then None
        else Some (TestsFailed (filter (chart_fails env) charts)),
        pre @ concat (map (chart_events env) charts))" by blast
  show ?thesis
    unfolding r using quiet_events [OF q]
    by (auto simp: installs_run_concat tests_run_concat filter_empty_conv)
qed

theorem InstallCharts_continue_on_error_witness:
  "installs_run (snd (InstallCharts two_charts NewHelmManager)) =
      [''/tmp/parcel/charts/alpha'', ''/tmp/parcel/charts/beta'']
   \<and> tests_run (snd (InstallCharts two_charts NewHelmManager)) = [''beta'']
   \<and> fst (InstallCharts two_charts NewHelmManager) = Some (TestsFailed [''/tmp/parcel/charts/alpha''])"
proof -
  have a: "fst (ensureHelmBinary two_charts) = None" by code_simp
  have b: "discoverCharts two_charts NewHelmManager =
      Inr [''/tmp/parcel/charts/alpha'', ''/tmp/parcel/charts/beta'']" by code_simp
  have c: "filter (chart_fails two_charts) [''/tmp/parcel/charts/alpha'', ''/tmp/parcel/charts/beta'']
      = [''/tmp/parcel/charts/alpha'']" by code_simp
  have d: "map (\<lambda>c. ToLower two_charts (Base c))
      (filter (\<lambda>c. cmd_error (helm_install two_charts c) = None)
        [''/tmp/parcel/charts/alpha'', ''/tmp/parcel/charts/beta'']) = [''beta'']" by code_simp
  have e: "\<exists>c \<in> set [''/tmp/parcel/charts/alpha'', ''/tmp/parcel/charts/beta'']. chart_fails two_charts c"
    by code_simp
  show ?thesis
    using InstallCharts_continue_on_error [OF a b] c d e by simp
qed

lemma chart_events_phases:
  "UpdateStatus c p m \<in> set (chart_events env chart) \<Longrightarrow> p \<in> recorded_phases"
  by (auto simp: chart_events_def installChart_def runTests_def Let_def recorded_phases_def
      split: option.splits)

lemma InstallCharts_events:
  "\<exists>pre charts. (\<forall>ev \<in> set pre. \<exists>t. ev = LoggerWrite t \<or> ev = LogPrintf t) \<and>
     snd (InstallCharts env hm) = pre @ concat (map (chart_events env) charts) \<and>
     (charts \<noteq> [] \<longrightarrow> discoverCharts env hm = Inr charts)"
proof (cases "fst (ensureHelmBinary env)")
  case None
  show ?thesis
  proof (cases "discoverCharts env hm")
    case (Inl e)
    obtain evs where e: "ensureHelmBinary env = (None, evs)"
      using None by (cases "ensureHelmBinary env") auto
    have "\<forall>ev \<in> set evs. \<exists>t. ev = LoggerWrite t \<or> ev = LogPrintf t"
      using e by (auto simp: ensureHelmBinary_def Let_def split: if_splits option.splits)
    then show ?thesis using e Inl
      by (intro exI [of _ evs] exI [of _ "[]"]) (simp add: InstallCharts_def)
  next
    case (Inr charts)
    from InstallCharts_shape [OF None Inr] obtain pre where
      "\<forall>ev \<in> set pre. \<exists>t. ev = LoggerWrite t \<or> ev = LogPrintf t"
      "snd (InstallCharts env hm) = pre @ concat (map (chart_events env) charts)" by auto
    then show ?thesis using Inr by (intro exI [of _ pre] exI [of _ charts]) simp
  qed
next
  case (Some a)
  then obtain evs where e: "ensureHelmBinary env = (Some a, evs)"
    by (cases "ensureHelmBinary env") auto
  have "\<forall>ev \<in> set evs. \<exists>t. ev = LoggerWrite t \<or> ev = LogPrintf t"
    using e by (auto simp: ensureHelmBinary_def Let_def split: if_splits option.splits)
  then show ?thesis using e
    by (intro exI [of _ evs] exI [of _ "[]"]) (simp add: InstallCharts_def)
qed

lemma InstallCharts_phases:
  "UpdateStatus c p m \<in> set (snd (InstallCharts env hm)) \<Longrightarrow> p \<in> recorded_phases"
proof -
  assume u: "UpdateStatus c p m \<in> set (snd (InstallCharts env hm))"
  from InstallCharts_events [of env hm] obtain pre charts where
    q: "\<forall>ev \<in> set pre. \<exists>t. ev = LoggerWrite t \<or> ev = LogPrintf t"
    and r: "snd (InstallCharts env hm) = pre @ concat (map (chart_events env) charts)" by blast
  from u r q obtain chart where "UpdateStatus c p m \<in> set (chart_events env chart)" by auto
  then show ?thesis by (rule chart_events_phases)
qed

lemma assign_set: "(c, st) \<in> set (assign k v al) \<Longrightarrow> (c, st) = (k, v) \<or> (c, st) \<in> set al"
  by (induction al) (auto split: if_splits)

lemma apply_events_status:
  assumes "(c, st) \<in> set (chartStatus (apply_events evs hm))"
  shows "(c, st) \<in> set (chartStatus hm) \<or> (\<exists>m. UpdateStatus c (Phase st) m \<in> set evs)"
  using assms
proof (induction evs arbitrary: hm)
  case Nil
  then show ?case by (simp add: apply_events_def)
next
  case (Cons ev evs)
  from Cons.prems have "(c, st) \<in> set (chartStatus (apply_events evs (apply_event hm ev)))"
    by (simp add: apply_events_def)
  from Cons.IH [OF this] show ?case
  proof
    assume a: "(c, st) \<in> set (chartStatus (apply_event hm ev))"
    show ?thesis
    proof (cases ev)
      case (UpdateStatus k p m)
      with a have "(c, st) = (k, \<lparr>Phase = p, StatusMessage = m\<rparr>) \<or> (c, st) \<in> set (chartStatus hm)"
        using assign_set by (fastforce simp: updateStatus_def)
      then show ?thesis using UpdateStatus by auto
    qed (use a in auto)
  next
    assume "\<exists>m. UpdateStatus c (Phase st) m \<in> set evs"
    then show ?thesis by auto
  qed
qed

lemma phases_of_hd_chart:
  "phases_of c (chart_events env chart) = [] \<or> hd (phases_of c (chart_events env chart)) = ''Installing''"
  by (simp add: chart_events_def installChart_def runTests_def Let_def split: option.splits)

lemma phases_of_hd_concat:
  "phases_of c (concat (map (chart_events env) charts)) = []
   \<or> hd (phases_of c (concat (map (chart_events env) charts))) = ''Installing''"
proof (induction charts)
  case Nil
  then show ?case by simp
next
  case (Cons chart charts)
  with phases_of_hd_chart [of c env chart] show ?case by (auto simp: hd_append)
qed

text \<open>
  C10.  No operation assigns the phase \<open>Pending\<close>: at every moment of a run of
  \<open>InstallCharts\<close> (after any prefix of its events) the snapshot \<open>GetChartsStatus\<close>
  returns holds no chart in phase \<open>Pending\<close>, provided the manager held none before
  (the new manager holds no chart at all); no status update of the run carries
  \<open>Pending\<close>; and the first phase recorded for any chart is \<open>Installing\<close>.
\<close>

theorem never_pending:
  assumes "prefix evs (snd (InstallCharts env hm))"
    and "\<forall>(c, st) \<in> set (chartStatus hm). Phase st \<noteq> ''Pending''"
  shows "(\<forall>(c, st) \<in> set (GetChartsStatus (apply_events evs hm)). Phase st \<noteq> ''Pending'')
    \<and> (\<forall>c p m. UpdateStatus c p m \<in> set (snd (InstallCharts env hm)) \<longrightarrow> p \<noteq> ''Pending'')
    \<and> (\<forall>c. phases_of c (snd (InstallCharts env hm)) \<noteq> [] \<longrightarrow>
          hd (phases_of c (snd (InstallCharts env hm))) = ''Installing'')"
proof (intro conjI allI impI)
  show "\<forall>(c, st) \<in> set (GetChartsStatus (apply_events evs hm)). Phase st \<noteq> ''Pending''"
  proof (clarify)
    fix c st assume in_map: "(c, st) \<in> set (GetChartsStatus (apply_events evs hm))"
      and p: "Phase st = ''Pending''"
    from in_map apply_events_status [of c st evs hm]
    consider "(c, st) \<in> set (chartStatus hm)" | m where "UpdateStatus c (Phase st) m \<in> set evs"
      by (auto simp: GetChartsStatus_def)
    then show False
    proof cases
      case 1
      with assms(2) p show False by auto
    next
      case 2
      with assms(1) have "UpdateStatus c (Phase st) m \<in> set (snd (InstallCharts env hm))"
        using set_mono_prefix by blast
      from InstallCharts_phases [OF this] p show False by (simp add: recorded_phases_def)
    qed
  qed
next
  fix c p m assume "UpdateStatus c p m \<in> set (snd (InstallCharts env hm))"
  from InstallCharts_phases [OF this] show "p \<noteq> ''Pending''" by (auto simp: recorded_phases_def)
next
  fix c assume ne: "phases_of c (snd (InstallCharts env hm)) \<noteq> []"
  from InstallCharts_events [of env hm] obtain pre charts where
    q: "\<forall>ev \<in> set pre. \<exists>t. ev = LoggerWrite t \<or> ev = LogPrintf t"
    and r: "snd (InstallCharts env hm) = pre @ concat (map (chart_events env) charts)" by blast
  show "hd (phases_of c (snd (InstallCharts env hm))) = ''Installing''"
    using ne phases_of_hd_concat [of c env charts] unfolding r
    by (simp add: quiet_events(3) [OF q])
qed

theorem never_pending_witness:
  "GetChartsStatus (apply_events (take 7 (snd (InstallCharts two_charts NewHelmManager))) NewHelmManager)
     = [(''alpha'', \<lparr>Phase = ''Failed'', StatusMessage = ''Install failed: exit status 1''\<rparr>)]
   \<and> hd (phases_of ''beta'' (snd (InstallCharts two_charts NewHelmManager))) = ''Installing''"
proof -
  let ?all = "snd (InstallCharts two_charts NewHelmManager)"
  have a: "prefix (take 7 ?all) ?all" by (rule take_is_prefix)
  have b: "\<forall>(c, st) \<in> set (chartStatus NewHelmManager). Phase st \<noteq> ''Pending''"
    by (simp add: NewHelmManager_def)
  have c: "GetChartsStatus (apply_events (take 7 ?all) NewHelmManager)
     = [(''alpha'', \<lparr>Phase = ''Failed'', StatusMessage = ''Install failed: exit status 1''\<rparr>)]"
    by code_simp
  have d: "phases_of ''beta'' ?all \<noteq> []" by code_simp
  show ?thesis using never_pending [OF a b] c d by simp
qed

lemma Base_chart_path:
  assumes "normal_elem name"
  shows "Base (Join [DefaultChartsDir, name]) = name"
proof -
  have s: "split_sep name = [name]"
    using assms by (simp add: split_sep_no_slash normal_elem_def)
  have "Join [DefaultChartsDir, name] = (DefaultChartsDir @ ''/'') @ name"
    using Join_charts [of name] assms s by simp
  moreover have "Base ((DefaultChartsDir @ ''/'') @ name) = name"
    using assms by (intro Base_last_elem) (simp_all add: normal_elem_def)
  ultimately show ?thesis by simp
qed

lemma discoverCharts_names:
  assumes "helmChartsDir hm = DefaultChartsDir" and "discoverCharts env hm = Inr charts"
    and "\<forall>entries. read_dir env = Inr entries \<longrightarrow> dir_listing entries"
  shows "distinct (map Base charts)"
proof (cases "charts_dir_missing env")
  case True
  with assms(2) show ?thesis by (simp add: discoverCharts_def)
next
  case False
  with assms(2) obtain entries where rd: "read_dir env = Inr entries"
    and ch: "charts = map (\<lambda>(name, isDir). Join [DefaultChartsDir, name])
                     (filter (\<lambda>(name, isDir). isDir \<and>
                        stat_chart_yaml env (Join [Join [DefaultChartsDir, name], ''Chart.yaml'']))
                        entries)"
    by (auto simp: discoverCharts_def assms(1) split: sum.splits)
  from assms(3) rd have dl: "dir_listing entries" by simp
  let ?keep = "filter (\<lambda>(name, isDir). isDir \<and>
                        stat_chart_yaml env (Join [Join [DefaultChartsDir, name], ''Chart.yaml'']))
                        entries"
  have "map Base charts = map fst ?keep"
    unfolding ch using dl
    by (auto simp: dir_listing_def list_all_iff Base_chart_path)
  moreover have "distinct (map fst ?keep)"
    using dl by (simp add: dir_listing_def distinct_map_filter)
  ultimately show ?thesis by simp
qed

lemma phases_of_other_chart:
  "Base chart \<noteq> c \<Longrightarrow> phases_of c (chart_events env chart) = []"
  by (simp add: chart_events_def installChart_def runTests_def Let_def split: option.splits)

lemma phases_of_others:
  "\<forall>chart \<in> set charts. Base chart \<noteq> c \<Longrightarrow> phases_of c (concat (map (chart_events env) charts)) = []"
  by (induction charts) (simp_all add: phases_of_other_chart)

lemma phases_of_chart_forward:
  "successively phase_step (phases_of c (chart_events env chart))"
  by (simp add: chart_events_def installChart_def runTests_def Let_def phase_step_def split: option.splits)

lemma phases_of_concat_forward:
  "distinct (map Base charts) \<Longrightarrow>
   successively phase_step (phases_of c (concat (map (chart_events env) charts)))"
proof (induction charts)
  case Nil
  then show ?case by simp
next
  case (Cons chart charts)
  show ?case
  proof (cases "Base chart = c")
    case True
    from Cons.prems have "Base chart \<notin> Base ` set charts" by simp
    with True have "\<forall>ch \<in> set charts. Base ch \<noteq> c" by blast
    then show ?thesis by (simp add: phases_of_others phases_of_chart_forward)
  next
    case False
    with Cons show ?thesis by (simp add: phases_of_other_chart)
  qed
qed

lemma phase_step_rank: "phase_step p q \<Longrightarrow> phase_rank p < phase_rank q"
  by (auto simp: phase_step_def phase_rank_def)

text \<open>
  C3.  Within one run, for the manager as \<open>NewHelmManager\<close> makes it (charts root
  \<open>/tmp/parcel/charts\<close>) and a directory listing as the operating system returns it
  (distinct names, each a single path element): the phases recorded for any chart
  follow the forward steps Installing to Deployed or Failed, Deployed to Testing,
  Testing to Succeeded or Failed, one after the other; so every later phase of a
  chart ranks above every earlier one and no update moves a chart backward.
\<close>

theorem phases_move_forward:
  assumes "helmChartsDir hm = DefaultChartsDir"
    and "\<forall>entries. read_dir env = Inr entries \<longrightarrow> dir_listing entries"
  shows "successively phase_step (phases_of c (snd (InstallCharts env hm)))
    \<and> sorted_wrt (\<lambda>p q. phase_rank p < phase_rank q) (phases_of c (snd (InstallCharts env hm)))"
proof -
  from InstallCharts_events [of env hm] obtain pre charts where
    q: "\<forall>ev \<in> set pre. \<exists>t. ev = LoggerWrite t \<or> ev = LogPrintf t"
    and r: "snd (InstallCharts env hm) = pre @ concat (map (chart_events env) charts)"
    and d: "charts \<noteq> [] \<longrightarrow> discoverCharts env hm = Inr charts" by blast
  have "distinct (map Base charts)"
  proof (cases "charts = []")
    case True
    then show ?thesis by simp
  next
    case False
    with d discoverCharts_names [OF assms(1) _ assms(2)] show ?thesis by blast
  qed
  then have a: "successively phase_step (phases_of c (snd (InstallCharts env hm)))"
    unfolding r by (simp add: quiet_events(3) [OF q] phases_of_concat_forward)
  then have "successively (\<lambda>p q. phase_rank p < phase_rank q) (phases_of c (snd (InstallCharts env hm)))"
    by (rule successively_mono) (rule phase_step_rank)
  then have "sorted_wrt (\<lambda>p q. phase_rank p < phase_rank q) (phases_of c (snd (InstallCharts env hm)))"
    by (subst (asm) successively_conv_sorted_wrt) (auto simp: transp_def)
  with a show ?thesis by simp
qed

theorem phases_move_forward_witness:
  "successively phase_step (phases_of ''beta'' (snd (InstallCharts two_charts NewHelmManager)))
   \<and> phases_of ''beta'' (snd (InstallCharts two_charts NewHelmManager))
       = [''Installing'', ''Deployed'', ''Testing'', ''Succeeded'']
   \<and> phases_of ''alpha'' (snd (InstallCharts two_charts NewHelmManager)) = [''Installing'', ''Failed'']"
proof -
  have a: "helmChartsDir NewHelmManager = DefaultChartsDir" by (simp add: NewHelmManager_def)
  have b: "\<forall>entries. read_dir two_charts = Inr entries \<longrightarrow> dir_listing entries"
    by (simp add: two_charts_def dir_listing_def normal_elem_def)
  have c: "phases_of ''beta'' (snd (InstallCharts two_charts NewHelmManager))
       = [''Installing'', ''Deployed'', ''Testing'', ''Succeeded'']" by code_simp
  have d: "phases_of ''alpha'' (snd (InstallCharts two_charts NewHelmManager)) = [''Installing'', ''Failed'']"
    by code_simp
  show ?thesis using phases_move_forward [OF a b, of "''beta''"] c d by simp
qed


section \<open>Properties of the background task\<close>

lemma helm_actions_quiet:
  "completions (concat (map helm_actions evs)) = [] \<and> transitions (concat (map helm_actions evs)) = []"
proof (induction evs)
  case Nil
  then show ?case by simp
next
  case (Cons ev evs)
  have "completions (helm_actions ev) = [] \<and> transitions (helm_actions ev) = []"
  proof (cases ev)
    case (LoggerWrite p)
    have "completions (map (ABroadcast ''helm'' ''info'') ls) = []
        \<and> transitions (map (ABroadcast ''helm'' ''info'') ls) = []" for ls
      by (induction ls) (simp_all add: completions_Cons)
    then show ?thesis using LoggerWrite by simp
  qed (simp_all add: completions_Cons)
  with Cons show ?case by simp
qed

lemma failed_update_chart:
  "UpdateStatus c ''Failed'' m \<in> set (chart_events env chart) \<Longrightarrow> chart_fails env chart"
  by (auto simp: chart_events_def installChart_def runTests_def Let_def chart_fails_def
      split: option.splits)

lemma InstallCharts_ok_iff:
  "(fst (InstallCharts env hm) = None) =
     (fst (ensureHelmBinary env) = None \<and>
      (\<exists>charts. discoverCharts env hm = Inr charts \<and> (\<forall>c \<in> set charts. \<not> chart_fails env c)))"
proof (cases "fst (ensureHelmBinary env)")
  case None
  show ?thesis
  proof (cases "discoverCharts env hm")
    case (Inl e)
    obtain evs where "ensureHelmBinary env = (None, evs)"
      using None by (cases "ensureHelmBinary env") auto
    then show ?thesis using Inl by (simp add: InstallCharts_def)
  next
    case (Inr charts)
    from InstallCharts_shape [OF None Inr] have
      "(fst (InstallCharts env hm) = None) = (filter (chart_fails env) charts = [])"
      by (auto split: if_splits)
    then show ?thesis using None Inr by (simp add: filter_empty_conv)
  qed
next
  case (Some a)
  then obtain evs where "ensureHelmBinary env = (Some a, evs)"
    by (cases "ensureHelmBinary env") auto
  then show ?thesis by (simp add: InstallCharts_def)
qed

lemma failed_update_fails:
  assumes "UpdateStatus c ''Failed'' m \<in> set (snd (InstallCharts env hm))"
  shows "fst (InstallCharts env hm) \<noteq> None"
proof
  assume ok: "fst (InstallCharts env hm) = None"
  then obtain charts where e: "fst (ensureHelmBinary env) = None"
    and d: "discoverCharts env hm = Inr charts" and nf: "\<forall>c \<in> set charts. \<not> chart_fails env c"
    unfolding InstallCharts_ok_iff by blast
  from InstallCharts_shape [OF e d] obtain pre where
    q: "\<forall>ev \<in> set pre. \<exists>t. ev = LoggerWrite t \<or> ev = LogPrintf t"
    and r: "snd (InstallCharts env hm) = pre @ concat (map (chart_events env) charts)" by auto
  from assms r q obtain chart where "chart \<in> set charts"
    "UpdateStatus c ''Failed'' m \<in> set (chart_events env chart)" by auto
  with failed_update_chart nf show False by blast
qed

lemma startK3s_shape:
  "\<exists>before. startK3s env s = before @ [ABroadcast ''runner'' ''complete'' (Message (final_message env s))]
       @ (if boot_fails (cluster env) then [ATransition StateIdle] else [])
     \<and> completions before = []
     \<and> transitions before = (if boot_fails (cluster env) then [StateStarting] else [StateStarting, StateReady])"
proof (cases "boot_fails (cluster env)")
  case True
  then have "fst (Start (cluster env) (k3s s)) \<noteq> None"
    using Start_fails_iff [of "cluster env" "k3s s"] by blast
  then obtain err km where st: "Start (cluster env) (k3s s) = (Some err, km)"
    by (cases "Start (cluster env) (k3s s)") auto
  show ?thesis using True
    by (intro exI [of _ "[ATransition StateStarting,
          ABroadcast ''k3s'' ''error'' (''Startup failed: '' @ k3s_error_text err)]"])
       (simp add: startK3s_def st final_message_def completions_Cons)
next
  case False
  then have "fst (Start (cluster env) (k3s s)) = None"
    using Start_fails_iff [of "cluster env" "k3s s"] by blast
  then obtain km where st: "Start (cluster env) (k3s s) = (None, km)"
    by (cases "Start (cluster env) (k3s s)") auto
  obtain err evs where ic: "InstallCharts (charts_env env) (helm s) = (err, evs)"
    by (cases "InstallCharts (charts_env env) (helm s)")
  let ?imp = "case import_error env of
             Some e \<Rightarrow> [ABroadcast ''runner'' ''warning'' (''Image import warning: '' @ e)]
           | None \<Rightarrow> []"
  let ?warn = "case err of
                 Some e \<Rightarrow> [ABroadcast ''helm'' ''warning'' (''Installation warnings: '' @ helm_error_text e)]
               | None \<Rightarrow> []"
  let ?before = "[ATransition StateStarting, ASetReady, ATransition StateReady,
           ABroadcast ''k3s'' ''info'' ''K3s is ready'',
           ABroadcast ''runner'' ''info'' ''Importing bundled images...''] @ ?imp
           @ concat (map helm_actions evs) @ ?warn"
  have q: "completions ?imp = []" "transitions ?imp = []" "completions ?warn = []" "transitions ?warn = []"
    by (simp_all add: completions_Cons split: option.splits)
  show ?thesis using False q helm_actions_quiet [of evs]
    by (intro exI [of _ ?before])
       (auto simp: startK3s_def st ic final_message_def completions_Cons Let_def split: option.splits)
qed

lemma checkCompletion_markers:
  "checkCompletion ''COMPLETE:FAILED:K3s startup failed'' = Some NotPassed"
  "checkCompletion ''COMPLETE:SUCCESS:All tests passed'' = Some Passed"
  "checkCompletion ''COMPLETE:FAILED:Tests failed'' = Some NotPassed"
  by (simp_all add: checkCompletion_def)

lemma emitted_last_completion:
  "emitted (before @ [ABroadcast ''runner'' ''complete'' t] @ (if b then [ATransition StateIdle] else []))
     \<noteq> [] \<and>
   last (emitted (before @ [ABroadcast ''runner'' ''complete'' t] @ (if b then [ATransition StateIdle] else [])))
     = \<lparr>Level = ''complete'', Source = ''runner'', Message = t\<rparr>"
  by simp

text \<open>
  The actions of the Helm events are what the manager's logger and its status
  updates do to the server.
\<close>

lemma run_broadcast_lines:
  "run_actions (map (ABroadcast source ''info'') ls) s =
     foldl (\<lambda>t line. broadcastLog source ''info'' line t) s ls"
  by (induction ls arbitrary: s) simp_all

lemma logger_write_actions:
  "run_actions (helm_actions (LoggerWrite p)) s = SourceLogWriter_Write ''helm'' p s"
  by (simp add: run_broadcast_lines SourceLogWriter_Write_def)

lemma helm_after_broadcasts [simp]:
  "helm (foldl (\<lambda>t line. broadcastLog source level line t) s ls) = helm s"
  by (induction ls arbitrary: s) simp_all

lemma helm_after_events:
  "helm (run_actions (concat (map helm_actions evs)) s) = apply_events evs (helm s)"
proof (induction evs arbitrary: s)
  case Nil
  then show ?case by (simp add: apply_events_def)
next
  case (Cons ev evs)
  have "helm (run_actions (helm_actions ev) s) = apply_event (helm s) ev"
    by (cases ev) (simp_all add: run_broadcast_lines)
  with Cons [of "run_actions (helm_actions ev) s"] show ?case
    by (simp add: apply_events_def)
qed

text \<open>
  Scenario A of the specification: the upload of one image and one chart to an idle
  server is accepted, both counters are 1 afterwards, and the background task is
  started.
\<close>

lemma scenario_a_upload:
  "StatusCode (resp (HandleUpload upload_a (NewServer False False) Map.empty)) = 202
   \<and> started (HandleUpload upload_a (NewServer False False) Map.empty)
   \<and> GetCounts (state (run_actions (acts (HandleUpload upload_a (NewServer False False) Map.empty))
         (NewServer False False))) = (1, 1)
   \<and> Current (state (run_actions (acts (HandleUpload upload_a (NewServer False False) Map.empty))
         (NewServer False False))) = StateTransferring"
  by code_simp

text \<open>
  C9 (as amended).  Every run of the background task puts exactly one message of
  level \<open>complete\<close> on the log bus, and it is the last message of the run; the
  transition hooks and the cluster's output, which run beside the task, add none.
  The client reads it as success exactly when the boot did not fail and
  \<open>InstallCharts\<close> returned no error, that is, the Helm binary was available,
  discovery succeeded and no discovered chart failed; otherwise as failure.  The
  lifecycle goes to \<open>Starting\<close> and then to \<open>Ready\<close>, where it stays, unless the boot
  failed; and any status update to \<open>Failed\<close> makes the message a failure.
\<close>

theorem one_completion_event:
  "\<exists>m. completions (startK3s env s) = [m]
     \<and> last (emitted (startK3s env s)) = m
     \<and> Level m = ''complete'' \<and> Source m = ''runner''
     \<and> checkCompletion (Message m) =
         Some (if \<not> boot_fails (cluster env)
                  \<and> fst (ensureHelmBinary (charts_env env)) = None
                  \<and> (\<exists>charts. discoverCharts (charts_env env) (helm s) = Inr charts
                        \<and> (\<forall>c \<in> set charts. \<not> chart_fails (charts_env env) c))
               then Passed else NotPassed)
     \<and> transitions (startK3s env s) =
         (if boot_fails (cluster env) then [StateStarting, StateIdle] else [StateStarting, StateReady])
     \<and> ((\<exists>c t. UpdateStatus c ''Failed'' t \<in> set (snd (InstallCharts (charts_env env) (helm s)))) \<longrightarrow>
          checkCompletion (Message m) = Some NotPassed)
     \<and> (\<forall>extra l. list_all background extra \<longrightarrow> l \<in> shuffles (startK3s env s) extra \<longrightarrow>
          completions l = [m] \<and> transitions l = transitions (startK3s env s))"
proof -
  let ?m = "final_message env s"
  from startK3s_shape [of env s] obtain before where
    sh: "startK3s env s = before @ [ABroadcast ''runner'' ''complete'' (Message ?m)]
       @ (if boot_fails (cluster env) then [ATransition StateIdle] else [])"
    and cb: "completions before = []"
    and tb: "transitions before = (if boot_fails (cluster env) then [StateStarting] else [StateStarting, StateReady])"
    by blast
  have lv: "Level ?m = ''complete''" "Source ?m = ''runner''"
    by (simp_all add: final_message_def)
  have m: "\<lparr>Level = ''complete'', Source = ''runner'', Message = Message ?m\<rparr> = ?m"
    by (simp add: final_message_def)
  have c1: "completions (startK3s env s) = [?m]"
    unfolding sh using cb m lv by (simp add: completions_Cons)
  have c2: "last (emitted (startK3s env s)) = ?m"
    unfolding sh using emitted_last_completion [of before "Message ?m" "boot_fails (cluster env)"] m
    by simp
  have c3: "checkCompletion (Message ?m) =
         Some (if \<not> boot_fails (cluster env)
                  \<and> fst (ensureHelmBinary (charts_env env)) = None
                  \<and> (\<exists>charts. discoverCharts (charts_env env) (helm s) = Inr charts
                        \<and> (\<forall>c \<in> set charts. \<not> chart_fails (charts_env env) c))
               then Passed else NotPassed)"
    using InstallCharts_ok_iff [of "charts_env env" "helm s"]
    by (simp add: final_message_def checkCompletion_markers)
  have c4: "transitions (startK3s env s) =
         (if boot_fails (cluster env) then [StateStarting, StateIdle] else [StateStarting, StateReady])"
    unfolding sh using tb by simp
  have c5: "checkCompletion (Message ?m) = Some NotPassed"
    if "\<exists>c t. UpdateStatus c ''Failed'' t \<in> set (snd (InstallCharts (charts_env env) (helm s)))"
  proof -
    from that failed_update_fails have "fst (InstallCharts (charts_env env) (helm s)) \<noteq> None" by blast
    then show ?thesis by (auto simp: final_message_def checkCompletion_markers)
  qed
  have c6: "completions l = [?m] \<and> transitions l = transitions (startK3s env s)"
    if "list_all background extra" "l \<in> shuffles (startK3s env s) extra" for extra l
    using shuffled_background [OF that(2) that(1)] c1 by simp
  show ?thesis
    using c1 c2 lv c3 c4 c5 c6 by (intro exI [of _ ?m]) blast
qed

theorem one_completion_event_witness:
  "length (completions (startK3s run_two_charts transferring_server)) = 1
   \<and> map Message (completions (startK3s run_two_charts transferring_server)) = [''COMPLETE:FAILED:Tests failed'']
   \<and> map (\<lambda>m. checkCompletion (Message m)) (completions (startK3s run_two_charts transferring_server))
       = [Some NotPassed]
   \<and> transitions (startK3s run_two_charts transferring_server) = [StateStarting, StateReady]"
proof -
  let ?run = "startK3s run_two_charts transferring_server"
  have f: "UpdateStatus ''alpha'' ''Failed'' ''Install failed: exit status 1''
      \<in> set (snd (InstallCharts (charts_env run_two_charts) (helm transferring_server)))"
    by code_simp
  have b: "\<not> boot_fails (cluster run_two_charts)" by code_simp
  have t: "map Message (completions ?run) = [''COMPLETE:FAILED:Tests failed'']" by code_simp
  from one_completion_event [of run_two_charts transferring_server] obtain m where
    c: "completions ?run = [m]"
    and v: "(\<exists>c t. UpdateStatus c ''Failed'' t
          \<in> set (snd (InstallCharts (charts_env run_two_charts) (helm transferring_server)))) \<longrightarrow>
          checkCompletion (Message m) = Some NotPassed"
    and tr: "transitions ?run =
         (if boot_fails (cluster run_two_charts) then [StateStarting, StateIdle]
          else [StateStarting, StateReady])" by blast
  from v f have "checkCompletion (Message m) = Some NotPassed" by blast
  with c tr b t show ?thesis by simp
qed

text \<open>
  C9 as stated fails: with no Helm binary to be had, the lifecycle reaches \<open>Ready\<close>
  and stays there, no chart has a phase other than \<open>Succeeded\<close> (none has a phase
  at all), and yet the completion message is the failure marker.
\<close>

theorem helm_missing_counterexample:
  "transitions (startK3s run_no_helm transferring_server) = [StateStarting, StateReady]
   \<and> current (state (run_actions (startK3s run_no_helm transferring_server) transferring_server)) = StateReady
   \<and> GetChartsStatus (helm (run_actions (startK3s run_no_helm transferring_server) transferring_server)) = []
   \<and> map Message (completions (startK3s run_no_helm transferring_server)) = [''COMPLETE:FAILED:Tests failed'']
   \<and> checkCompletion ''COMPLETE:FAILED:Tests failed'' = Some NotPassed"
  by code_simp


section \<open>Properties of the log bus\<close>

lemma add_all_snoc: "add_all (es @ [e]) lb = Add e (add_all es lb)"
  by (simp add: add_all_def)

lemma maxSize_add_all [simp]: "maxSize (add_all es lb) = maxSize lb"
  by (induction es rule: rev_induct) (simp_all add: add_all_snoc Add_def Let_def, simp add: add_all_def)


















end
